theory Spec2Isabelle
  imports Main "HOL-Library.Word" "HOL-Library.Sublist"
begin

section \<open>JavaScript strings and the built-ins the program calls\<close>

text \<open>
  A JavaScript string is a sequence of UTF-16 code units; \<open>length\<close>, \<open>substring\<close>,
  \<open>replace\<close>, \<open>trim\<close> and the (non-unicode) regular expressions of the program all
  work on code units. A string is therefore a list of 16-bit words. \<open>js\<close> embeds an
  ASCII literal of this file, one code unit per character.
\<close>

type_synonym code_unit = "16 word"
type_synonym jsstring = "code_unit list"

definition js :: "string \<Rightarrow> jsstring" where
  "js s = map of_char s"

text \<open>
  A template literal of the source that spans several lines, given line by line: the
  lines are joined by the line feed that separates them in the source text.
\<close>

fun template_lines :: "string list \<Rightarrow> string" where
  "template_lines [] = []"
| "template_lines [l] = l"
| "template_lines (l # m # ls) = l @ CHR 0x0A # template_lines (m # ls)"

definition template_literal :: "string list \<Rightarrow> jsstring" where
  "template_literal ls = js (template_lines ls)"

subsection \<open>\<open>String.prototype.replace\<close> with a string pattern and a string replacement\<close>

text \<open>
  \<open>StringIndexOf(string, searchString, 0)\<close>: the least index at which
  \<open>searchString\<close> occurs, or \<open>None\<close> (the specification's \<open>-1\<close>).
\<close>

fun stringIndexOf :: "jsstring \<Rightarrow> jsstring \<Rightarrow> nat option" where
  "stringIndexOf [] searchString = (if searchString = [] then Some 0 else None)"
| "stringIndexOf (c # cs) searchString =
     (if prefix searchString (c # cs) then Some 0
      else map_option Suc (stringIndexOf cs searchString))"

text \<open>
  \<open>GetSubstitution(matched, str, position, captures = [], namedCaptures = undefined,
  replacementTemplate)\<close>. The replacement string is not inserted as it is: \<open>$$\<close>
  stands for one \<open>$\<close>, \<open>$&\<close> for the matched text, \<open>$`\<close> for the text before the
  match and \<open>$'\<close> for the text after it. With a string pattern there is no capture
  group, so \<open>$1\<close> .. \<open>$99\<close> and \<open>$<\<close> are copied as they stand; copying the \<open>$\<close>
  and going on with the next code unit gives the same text, as a digit or \<open><\<close> is not
  a \<open>$\<close>.
\<close>

fun getSubstitution :: "jsstring \<Rightarrow> jsstring \<Rightarrow> nat \<Rightarrow> jsstring \<Rightarrow> jsstring" where
  "getSubstitution matched str position [] = []"
| "getSubstitution matched str position [c] = [c]"
| "getSubstitution matched str position (c # d # rest) =
     (if c = 0x24 \<and> d = 0x24 then
        0x24 # getSubstitution matched str position rest
      else if c = 0x24 \<and> d = 0x60 then
        take position str @ getSubstitution matched str position rest
      else if c = 0x24 \<and> d = 0x26 then
        matched @ getSubstitution matched str position rest
      else if c = 0x24 \<and> d = 0x27 then
        drop (min (position + length matched) (length str)) str
          @ getSubstitution matched str position rest
      else c # getSubstitution matched str position (d # rest))"

definition js_replace :: "jsstring \<Rightarrow> jsstring \<Rightarrow> jsstring \<Rightarrow> jsstring" where
  "js_replace string searchString replaceValue =
     (case stringIndexOf string searchString of
        None \<Rightarrow> string
      | Some position \<Rightarrow>
          take position string
            @ getSubstitution searchString string position replaceValue
            @ drop (position + length searchString) string)"

section \<open>The model gateway: prompt templates and request content\<close>

record ModelConfig =
  baseUrl :: jsstring
  apiKey :: jsstring
  modelName :: jsstring

definition ARCHITECT_PROMPT_TEMPLATE :: jsstring where
  "ARCHITECT_PROMPT_TEMPLATE = template_literal
    [''You are an expert academic diagram architect. Analyze the following paper content and generate a detailed Visual Schema that describes a publication-quality academic diagram.'',
     '''',
     ''The Visual Schema should include:'',
     ''1. Layout structure (zones, panels, sections)'',
     ''2. Visual elements (shapes, icons, connections)'',
     ''3. Color scheme'',
     ''4. Text labels and annotations'',
     ''5. Flow/direction indicators'',
     '''',
     ''Paper Content:'',
     ''{paper_content}'',
     '''',
     ''Generate a comprehensive Visual Schema in the following format:'',
     '''',
     ''---BEGIN PROMPT---'',
     ''[DIAGRAM TITLE]'',
     ''A clear, descriptive title for the diagram'',
     '''',
     ''[OVERALL LAYOUT]'',
     ''Describe the overall structure and organization'',
     '''',
     ''[ZONES/SECTIONS]'',
     ''Detail each zone or section with:'',
     ''- Position and size'',
     ''- Background color/style'',
     ''- Content description'',
     '''',
     ''[VISUAL ELEMENTS]'',
     ''List all visual elements with:'',
     ''- Type (box, arrow, icon, etc.)'',
     ''- Position'',
     ''- Style (color, border, shadow)'',
     ''- Content/label'',
     '''',
     ''[CONNECTIONS]'',
     ''Describe connections between elements:'',
     ''- From/To'',
     ''- Arrow style'',
     ''- Labels'',
     '''',
     ''[COLOR PALETTE]'',
     ''List the main colors used'',
     '''',
     ''[KEY TEXT LABELS]'',
     ''Important text annotations'',
     ''---END PROMPT---'']"

definition RENDERER_PROMPT_TEMPLATE :: jsstring where
  "RENDERER_PROMPT_TEMPLATE = template_literal
    [''You are an expert academic diagram renderer. Based on the following Visual Schema, generate a high-quality academic diagram suitable for CVPR/NeurIPS publications.'',
     '''',
     ''{visual_schema_content}'',
     '''',
     ''Create a clean, professional academic diagram with:'',
     ''- Clear visual hierarchy'',
     ''- Professional color scheme'',
     ''- Crisp lines and shapes'',
     ''- Readable text labels'',
     ''- Publication-quality aesthetics'']"

definition RENDERER_WITH_REFERENCES_TEMPLATE :: jsstring where
  "RENDERER_WITH_REFERENCES_TEMPLATE = template_literal
    [''You are an expert academic diagram renderer. Based on the following Visual Schema and reference images, generate a high-quality academic diagram that matches the style of the references.'',
     '''',
     ''{visual_schema_content}'',
     '''',
     ''The reference images show the desired aesthetic style. Generate a diagram that:'',
     ''- Follows the layout and structure from the Visual Schema'',
     ''- Matches the visual style of the reference images'',
     ''- Has publication-quality aesthetics suitable for CVPR/NeurIPS'']"

text \<open>
  A part of a chat message: \<open>{type: 'image_url', image_url: {url}}\<close> or
  \<open>{type: 'text', text}\<close>.
\<close>

datatype ContentPart = ImageUrlPart jsstring | TextPart jsstring

text \<open>
  An optional image list (\<open>inputImages?: string[]\<close>) is \<open>None\<close> when the argument is
  absent. The guard \<open>images && images.length > 0\<close> of the source, which stands before
  the choice of the template and before the content parts are built: an empty array is
  truthy, so only its length decides.
\<close>

definition images_present :: "jsstring list option \<Rightarrow> bool" where
  "images_present images = (case images of None \<Rightarrow> False | Some imgs \<Rightarrow> length imgs > 0)"

definition generateSchema_prompt :: "jsstring \<Rightarrow> jsstring" where
  "generateSchema_prompt paperContent =
     js_replace ARCHITECT_PROMPT_TEMPLATE (js ''{paper_content}'') paperContent"

definition generateSchema_content :: "jsstring \<Rightarrow> jsstring list option \<Rightarrow> ContentPart list" where
  "generateSchema_content paperContent inputImages =
     (let prompt = generateSchema_prompt paperContent in
      case inputImages of
        Some imgs \<Rightarrow>
          if length imgs > 0 then map ImageUrlPart imgs @ [TextPart prompt]
          else [TextPart prompt]
      | None \<Rightarrow> [TextPart prompt])"

definition renderImage_prompt :: "jsstring \<Rightarrow> jsstring list option \<Rightarrow> jsstring" where
  "renderImage_prompt visualSchema referenceImages =
     (if images_present referenceImages
      then js_replace RENDERER_WITH_REFERENCES_TEMPLATE (js ''{visual_schema_content}'') visualSchema
      else js_replace RENDERER_PROMPT_TEMPLATE (js ''{visual_schema_content}'') visualSchema)"

definition renderImage_content :: "jsstring \<Rightarrow> jsstring list option \<Rightarrow> ContentPart list" where
  "renderImage_content visualSchema referenceImages =
     (let prompt = renderImage_prompt visualSchema referenceImages in
      case referenceImages of
        Some imgs \<Rightarrow>
          if length imgs > 0 then map ImageUrlPart imgs @ [TextPart prompt]
          else [TextPart prompt]
      | None \<Rightarrow> [TextPart prompt])"


subsection \<open>The remote chat-completion capability\<close>

text \<open>
  The request \<open>{model, messages: [{role: 'user', content}], temperature: 0.7,
  max_tokens: 4096}\<close>; the constant sampling temperature is left out of the record.
  The response as far as the program reads it: \<open>choices[0]?.message?.content\<close>, where
  the first choice, its message and the content may each be absent.
\<close>

datatype Role = User

record ChatRequest =
  model :: jsstring
  messages :: "(Role \<times> ContentPart list) list"
  max_tokens :: nat

record ChatMessage =
  content :: "jsstring option"

record Choice =
  message :: "ChatMessage option"

record ChatCompletion =
  choices :: "Choice list"

record GenerateSchemaResponse =
  response_schema :: jsstring

text \<open>
  \<open>RenderImageResponse = {imageUrl: string | null, text?: string}\<close>: \<open>None\<close> is
  \<open>null\<close> for the image and an absent property for the text.
\<close>

record RenderImageResponse =
  response_imageUrl :: "jsstring option"
  response_text :: "jsstring option"

text \<open>\<open>response.choices[0]?.message?.content || ''\<close>\<close>

definition first_message_content :: "ChatCompletion \<Rightarrow> jsstring" where
  "first_message_content response =
     (case choices response of
        [] \<Rightarrow> []
      | choice # _ \<Rightarrow>
          (case message choice of
             None \<Rightarrow> []
           | Some msg \<Rightarrow> (case content msg of None \<Rightarrow> [] | Some c \<Rightarrow> if c = [] then [] else c)))"

text \<open>
  \<open>generateSchema\<close>: the remote call is a parameter, given the client's \<open>apiKey\<close> and
  \<open>baseURL\<close> and the request; its rejection (\<open>Inl\<close>) is the rejection of the whole
  call.
\<close>

definition generateSchema ::
  "(jsstring \<Rightarrow> jsstring \<Rightarrow> ChatRequest \<Rightarrow> 'e + ChatCompletion) \<Rightarrow>
   jsstring \<Rightarrow> ModelConfig \<Rightarrow> jsstring list option \<Rightarrow> 'e + GenerateSchemaResponse" where
  "generateSchema create paperContent config inputImages =
     (case create (apiKey config) (baseUrl config)
             \<lparr>model = modelName config,
              messages = [(User, generateSchema_content paperContent inputImages)],
              max_tokens = 4096\<rparr> of
        Inl e \<Rightarrow> Inl e
      | Inr response \<Rightarrow> Inr \<lparr>response_schema = first_message_content response\<rparr>)"

subsection \<open>Regular expressions of the program\<close>

text \<open>
  The two patterns of \<open>renderImage\<close> are sequences of literal text, a greedy
  \<open>[class]+\<close> and the assertions \<open>^\<close> and \<open>$\<close> (no flags, so these are the start and
  the end of the input). \<open>rx_match p input i\<close> is the backtracking matcher of the
  language specification started at index \<open>i\<close>: it gives the end index of the first
  match found. A greedy \<open>+\<close> takes the longest run of the class first and gives back
  one code unit at a time, down to one, until the rest of the pattern matches.
\<close>

datatype rx = Chars jsstring | ClassPlus "code_unit \<Rightarrow> bool" | AssertStart | AssertEnd

fun first_some :: "'a option list \<Rightarrow> 'a option" where
  "first_some [] = None"
| "first_some (None # xs) = first_some xs"
| "first_some (Some x # xs) = Some x"

fun rx_match :: "rx list \<Rightarrow> jsstring \<Rightarrow> nat \<Rightarrow> nat option" where
  "rx_match [] input i = Some i"
| "rx_match (Chars l # p) input i =
     (if take (length l) (drop i input) = l then rx_match p input (i + length l) else None)"
| "rx_match (ClassPlus cls # p) input i =
     first_some (map (\<lambda>k. rx_match p input (i + k))
                     (rev [1 ..< Suc (length (takeWhile cls (drop i input)))]))"
| "rx_match (AssertStart # p) input i = (if i = 0 then rx_match p input i else None)"
| "rx_match (AssertEnd # p) input i = (if i = length input then rx_match p input i else None)"

text \<open>
  \<open>RegExpBuiltinExec\<close> for a pattern that is neither global nor sticky: the match is
  tried at index 0, 1, .. up to the length of the input; the first index that matches
  wins. The result is the pair of the start and the end index.
\<close>

definition regex_exec :: "rx list \<Rightarrow> jsstring \<Rightarrow> (nat \<times> nat) option" where
  "regex_exec p input =
     first_some (map (\<lambda>i. map_option (\<lambda>e. (i, e)) (rx_match p input i))
                     [0 ..< Suc (length input)])"

text \<open>\<open>input.match(p)\<close>, read at \<open>[0]\<close>: the matched text, or \<open>None\<close> for \<open>null\<close>.\<close>

definition js_match :: "jsstring \<Rightarrow> rx list \<Rightarrow> jsstring option" where
  "js_match input p =
     map_option (\<lambda>(i, e). take (e - i) (drop i input)) (regex_exec p input)"

text \<open>\<open>p.test(input)\<close>\<close>

definition js_test :: "rx list \<Rightarrow> jsstring \<Rightarrow> bool" where
  "js_test p input = (regex_exec p input \<noteq> None)"

text \<open>
  White space as \<open>\s\<close> and \<open>String.prototype.trim\<close> take it: the \<open>WhiteSpace\<close> and
  \<open>LineTerminator\<close> code points, all of them in the basic plane.
\<close>

definition is_white_space :: "code_unit \<Rightarrow> bool" where
  "is_white_space c =
     (c = 0x0009 \<or> c = 0x000A \<or> c = 0x000B \<or> c = 0x000C \<or> c = 0x000D \<or> c = 0x0020
      \<or> c = 0x00A0 \<or> c = 0x1680 \<or> (0x2000 \<le> c \<and> c \<le> 0x200A) \<or> c = 0x2028
      \<or> c = 0x2029 \<or> c = 0x202F \<or> c = 0x205F \<or> c = 0x3000 \<or> c = 0xFEFF)"

definition js_trim :: "jsstring \<Rightarrow> jsstring" where
  "js_trim s = rev (dropWhile is_white_space (rev (dropWhile is_white_space s)))"

text \<open>The classes \<open>[^;]\<close>, \<open>[A-Za-z0-9+/=]\<close> and \<open>[A-Za-z0-9+/=\s]\<close>.\<close>

definition not_semicolon :: "code_unit \<Rightarrow> bool" where
  "not_semicolon c = (c \<noteq> 0x3B)"

definition base64_char :: "code_unit \<Rightarrow> bool" where
  "base64_char c =
     ((0x41 \<le> c \<and> c \<le> 0x5A) \<or> (0x61 \<le> c \<and> c \<le> 0x7A) \<or> (0x30 \<le> c \<and> c \<le> 0x39)
      \<or> c = 0x2B \<or> c = 0x2F \<or> c = 0x3D)"

definition base64_or_space :: "code_unit \<Rightarrow> bool" where
  "base64_or_space c = (base64_char c \<or> is_white_space c)"

text \<open>\<open>/data:image\/[^;]+;base64,[A-Za-z0-9+/=]+/\<close>\<close>

definition base64Pattern :: "rx list" where
  "base64Pattern =
     [Chars (js ''data:image/''), ClassPlus not_semicolon,
      Chars (js '';base64,''), ClassPlus base64_char]"

text \<open>\<open>/^[A-Za-z0-9+/=\s]+$/\<close>\<close>

definition rawBase64Pattern :: "rx list" where
  "rawBase64Pattern = [AssertStart, ClassPlus base64_or_space, AssertEnd]"

subsection \<open>\<open>renderImage\<close>\<close>

text \<open>
  What \<open>renderImage\<close> returns for the extracted response text \<open>resultContent\<close>: the
  statements after the remote call. An empty string is falsy and skips the cascade.
\<close>

definition renderImage_result :: "jsstring \<Rightarrow> RenderImageResponse" where
  "renderImage_result resultContent =
     (if resultContent \<noteq> [] then
        (case js_match resultContent base64Pattern of
           Some m \<Rightarrow> \<lparr>response_imageUrl = Some m, response_text = None\<rparr>
         | None \<Rightarrow>
             if length resultContent > 1000 \<and> js_test rawBase64Pattern resultContent
             then \<lparr>response_imageUrl = Some (js ''data:image/png;base64,'' @ js_trim resultContent),
                   response_text = None\<rparr>
             else \<lparr>response_imageUrl = None, response_text = Some resultContent\<rparr>)
      else \<lparr>response_imageUrl = None, response_text = Some resultContent\<rparr>)"

definition renderImage ::
  "(jsstring \<Rightarrow> jsstring \<Rightarrow> ChatRequest \<Rightarrow> 'e + ChatCompletion) \<Rightarrow>
   jsstring \<Rightarrow> ModelConfig \<Rightarrow> jsstring list option \<Rightarrow> 'e + RenderImageResponse" where
  "renderImage create visualSchema config referenceImages =
     (case create (apiKey config) (baseUrl config)
             \<lparr>model = modelName config,
              messages = [(User, renderImage_content visualSchema referenceImages)],
              max_tokens = 4096\<rparr> of
        Inl e \<Rightarrow> Inl e
      | Inr response \<Rightarrow> Inr (renderImage_result (first_message_content response)))"

section \<open>The workflow state store\<close>

datatype Language = En | Zh

text \<open>
  \<open>HistoryItem\<close>; \<open>id\<close> is \<open>item_id\<close> here. \<open>imageUrl\<close> is \<open>string | null\<close> and
  \<open>thumbnail\<close> is optional: \<open>None\<close> is \<open>null\<close>, respectively \<open>undefined\<close>.
\<close>

record HistoryItem =
  item_id :: jsstring
  timestamp :: int
  schema :: jsstring
  imageUrl :: "jsstring option"
  thumbnail :: "jsstring option"

text \<open>The data fields of \<open>WorkflowState\<close>; \<open>_hasHydrated\<close> is \<open>hasHydrated\<close>.\<close>

record WorkflowState =
  logicConfig :: ModelConfig
  visionConfig :: ModelConfig
  language :: Language
  currentStep :: nat
  paperContent :: jsstring
  generatedSchema :: jsstring
  generatedImage :: "jsstring option"
  referenceImages :: "jsstring list"
  history :: "HistoryItem list"
  storageWarning :: bool
  hasHydrated :: bool

definition defaultLogicConfig :: ModelConfig where
  "defaultLogicConfig =
     \<lparr>baseUrl = js ''https://api.deepseek.com'', apiKey = [],
      modelName = js ''deepseek-chat''\<rparr>"

definition defaultVisionConfig :: ModelConfig where
  "defaultVisionConfig =
     \<lparr>baseUrl = js ''https://generativelanguage.googleapis.com/v1beta'', apiKey = [],
      modelName = js ''gemini-3-pro-image-preview''\<rparr>"

definition initialState :: WorkflowState where
  "initialState =
     \<lparr>logicConfig = defaultLogicConfig, visionConfig = defaultVisionConfig, language = Zh,
      currentStep = 1, paperContent = [], generatedSchema = [],
      generatedImage = None, referenceImages = [], history = [], storageWarning = False,
      hasHydrated = False\<rparr>"

definition MAX_HISTORY_ITEMS :: nat where
  "MAX_HISTORY_ITEMS = 5"

text \<open>\<open>createThumbnail\<close>: \<open>null\<close> and the empty string are falsy.\<close>

definition createThumbnail :: "jsstring option \<Rightarrow> jsstring option" where
  "createThumbnail img =
     (case img of
        None \<Rightarrow> None
      | Some u \<Rightarrow> if u = [] then None else Some (take 100 u @ js ''...''))"

subsection \<open>Persistence\<close>

text \<open>
  The subset of the state that \<open>partialize\<close> hands to the storage. The JSON text
  written is a function of this value; the model stores the value itself.
\<close>

record PersistedState =
  saved_logicConfig :: ModelConfig
  saved_visionConfig :: ModelConfig
  saved_language :: Language
  saved_paperContent :: jsstring
  saved_generatedSchema :: jsstring
  saved_history :: "HistoryItem list"

definition partialize :: "WorkflowState \<Rightarrow> PersistedState" where
  "partialize s =
     \<lparr>saved_logicConfig = logicConfig s,
      saved_visionConfig = visionConfig s,
      saved_language = language s,
      saved_paperContent = paperContent s,
      saved_generatedSchema = generatedSchema s,
      saved_history = map (\<lambda>h. h\<lparr>imageUrl := None\<rparr>) (history s)\<rparr>"

text \<open>
  The browser's \<open>localStorage\<close>: the stored items, and which writes the browser
  refuses. Whether \<open>setItem\<close> throws depends on what is stored, on the key and on the
  value; a refused write changes nothing.
\<close>

datatype storage_error = QuotaExceededError | OtherError

record LocalStorage =
  items :: "jsstring \<rightharpoonup> PersistedState"
  refuses :: "(jsstring \<rightharpoonup> PersistedState) \<Rightarrow> jsstring \<Rightarrow> PersistedState \<Rightarrow> storage_error option"

definition localStorage_setItem ::
  "LocalStorage \<Rightarrow> jsstring \<Rightarrow> PersistedState \<Rightarrow> storage_error + LocalStorage" where
  "localStorage_setItem ls name v =
     (case refuses ls (items ls) name v of
        Some e \<Rightarrow> Inl e
      | None \<Rightarrow> Inr (ls\<lparr>items := (items ls)(name \<mapsto> v)\<rparr>))"

text \<open>
  \<open>safeStorage.setItem\<close>: a quota error is thrown on to the caller, any other error
  is swallowed.
\<close>

definition safeStorage_setItem ::
  "LocalStorage \<Rightarrow> jsstring \<Rightarrow> PersistedState \<Rightarrow> storage_error + LocalStorage" where
  "safeStorage_setItem ls name v =
     (case localStorage_setItem ls name v of
        Inr ls' \<Rightarrow> Inr ls'
      | Inl e \<Rightarrow> if e = QuotaExceededError then Inl e else Inr ls)"

definition storage_name :: jsstring where
  "storage_name = js ''academic-illustrator-storage''"

text \<open>
  The store: the state in memory and the storage behind it. An action returns
  normally (\<open>Inr ()\<close>) or throws (\<open>Inl e\<close>); either way the store is as the action
  left it.

  \<open>set\<close> is the one the \<open>persist\<close> middleware of the state library hands to the store:
  it merges the update into the state in memory and then writes
  \<open>partialize\<close> of the new state through \<open>storage.setItem\<close>, in the same call, so an
  exception of \<open>setItem\<close> leaves \<open>set\<close> after the state in memory has changed.
\<close>

record Store =
  state :: WorkflowState
  storage :: LocalStorage

type_synonym action_result = "(storage_error + unit) \<times> Store"

definition persist_set :: "(WorkflowState \<Rightarrow> WorkflowState) \<Rightarrow> Store \<Rightarrow> action_result" where
  "persist_set update st =
     (let s' = update (state st) in
      case safeStorage_setItem (storage st) storage_name (partialize s') of
        Inl e \<Rightarrow> (Inl e, st\<lparr>state := s'\<rparr>)
      | Inr ls' \<Rightarrow> (Inr (), \<lparr>state = s', storage = ls'\<rparr>))"

subsection \<open>Actions\<close>

text \<open>
  The argument of \<open>addToHistory\<close>, \<open>Omit<HistoryItem, 'id' | 'timestamp' | 'thumbnail'>\<close>.
\<close>

record HistoryEntry =
  entry_schema :: jsstring
  entry_imageUrl :: "jsstring option"

text \<open>
  \<open>newItem\<close> of \<open>addToHistory\<close>; \<open>uuid\<close> is what \<open>crypto.randomUUID()\<close> returns and
  \<open>now\<close> what \<open>Date.now()\<close> returns in that call.
\<close>

definition newItem :: "HistoryEntry \<Rightarrow> jsstring \<Rightarrow> int \<Rightarrow> HistoryItem" where
  "newItem item uuid now =
     \<lparr>item_id = uuid, timestamp = now, schema = entry_schema item, imageUrl = None,
      thumbnail = createThumbnail (entry_imageUrl item)\<rparr>"

definition addToHistory :: "HistoryEntry \<Rightarrow> jsstring \<Rightarrow> int \<Rightarrow> Store \<Rightarrow> action_result" where
  "addToHistory item uuid now st =
     (let newHistory = newItem item uuid now # take (MAX_HISTORY_ITEMS - 1) (history (state st)) in
      case persist_set (\<lambda>s. s\<lparr>history := newHistory, storageWarning := False\<rparr>) st of
        (Inr u, st') \<Rightarrow> (Inr u, st')
      | (Inl e, st') \<Rightarrow> persist_set (\<lambda>s. s\<lparr>storageWarning := True\<rparr>) st')"

definition loadFromHistory :: "jsstring \<Rightarrow> Store \<Rightarrow> action_result" where
  "loadFromHistory ident st =
     (case find (\<lambda>h. item_id h = ident) (history (state st)) of
        Some item \<Rightarrow>
          persist_set (\<lambda>s. s\<lparr>generatedSchema := schema item, generatedImage := None\<rparr>) st
      | None \<Rightarrow> (Inr (), st))"

definition deleteFromHistory :: "jsstring \<Rightarrow> Store \<Rightarrow> action_result" where
  "deleteFromHistory ident st =
     persist_set (\<lambda>s. s\<lparr>history := filter (\<lambda>h. item_id h \<noteq> ident) (history s),
                        storageWarning := False\<rparr>) st"

definition clearHistory :: "Store \<Rightarrow> action_result" where
  "clearHistory st = persist_set (\<lambda>s. s\<lparr>history := [], storageWarning := False\<rparr>) st"

definition resetProject :: "Store \<Rightarrow> action_result" where
  "resetProject st =
     persist_set (\<lambda>s. s\<lparr>paperContent := [], generatedSchema := [],
                        generatedImage := None, referenceImages := [], currentStep := 1\<rparr>) st"

text \<open>
  A sequence of \<open>addToHistory\<close> calls, each with its argument and the identifier and
  time it draws. Every call is an event of its own: the next one starts from the store
  the previous one left, however that one ended.
\<close>

fun addToHistory_calls :: "(HistoryEntry \<times> jsstring \<times> int) list \<Rightarrow> Store \<Rightarrow> Store" where
  "addToHistory_calls [] st = st"
| "addToHistory_calls ((item, uuid, now) # calls) st =
     addToHistory_calls calls (snd (addToHistory item uuid now st))"

section \<open>Notions the properties are stated with\<close>

subsection \<open>The fixed text of each template around its placeholder\<close>

text \<open>
  In each of the three templates the placeholder stands on a line of its own. The text
  before it ends with the line feed that closes the previous line, the text after it
  starts with the line feed that closes the placeholder's line.
\<close>

definition ARCHITECT_BEFORE :: string where
  "ARCHITECT_BEFORE = template_lines
    [''You are an expert academic diagram architect. Analyze the following paper content and generate a detailed Visual Schema that describes a publication-quality academic diagram.'',
     '''',
     ''The Visual Schema should include:'',
     ''1. Layout structure (zones, panels, sections)'',
     ''2. Visual elements (shapes, icons, connections)'',
     ''3. Color scheme'',
     ''4. Text labels and annotations'',
     ''5. Flow/direction indicators'',
     '''',
     ''Paper Content:'',
     '''']"

definition ARCHITECT_AFTER :: string where
  "ARCHITECT_AFTER = template_lines
    ['''',
     '''',
     ''Generate a comprehensive Visual Schema in the following format:'',
     '''',
     ''---BEGIN PROMPT---'',
     ''[DIAGRAM TITLE]'',
     ''A clear, descriptive title for the diagram'',
     '''',
     ''[OVERALL LAYOUT]'',
     ''Describe the overall structure and organization'',
     '''',
     ''[ZONES/SECTIONS]'',
     ''Detail each zone or section with:'',
     ''- Position and size'',
     ''- Background color/style'',
     ''- Content description'',
     '''',
     ''[VISUAL ELEMENTS]'',
     ''List all visual elements with:'',
     ''- Type (box, arrow, icon, etc.)'',
     ''- Position'',
     ''- Style (color, border, shadow)'',
     ''- Content/label'',
     '''',
     ''[CONNECTIONS]'',
     ''Describe connections between elements:'',
     ''- From/To'',
     ''- Arrow style'',
     ''- Labels'',
     '''',
     ''[COLOR PALETTE]'',
     ''List the main colors used'',
     '''',
     ''[KEY TEXT LABELS]'',
     ''Important text annotations'',
     ''---END PROMPT---'']"

definition RENDERER_BEFORE :: string where
  "RENDERER_BEFORE = template_lines
    [''You are an expert academic diagram renderer. Based on the following Visual Schema, generate a high-quality academic diagram suitable for CVPR/NeurIPS publications.'',
     '''',
     '''']"

definition RENDERER_AFTER :: string where
  "RENDERER_AFTER = template_lines
    ['''',
     '''',
     ''Create a clean, professional academic diagram with:'',
     ''- Clear visual hierarchy'',
     ''- Professional color scheme'',
     ''- Crisp lines and shapes'',
     ''- Readable text labels'',
     ''- Publication-quality aesthetics'']"

definition RENDERER_WITH_REFERENCES_BEFORE :: string where
  "RENDERER_WITH_REFERENCES_BEFORE = template_lines
    [''You are an expert academic diagram renderer. Based on the following Visual Schema and reference images, generate a high-quality academic diagram that matches the style of the references.'',
     '''',
     '''']"

definition RENDERER_WITH_REFERENCES_AFTER :: string where
  "RENDERER_WITH_REFERENCES_AFTER = template_lines
    ['''',
     '''',
     ''The reference images show the desired aesthetic style. Generate a diagram that:'',
     ''- Follows the layout and structure from the Visual Schema'',
     ''- Matches the visual style of the reference images'',
     ''- Has publication-quality aesthetics suitable for CVPR/NeurIPS'']"

subsection \<open>Embedded data-URL image literals\<close>

text \<open>
  A data-URL image literal: the scheme \<open>data:image/\<close>, a media subtype (one code unit
  or more, none of them a semicolon), \<open>;base64,\<close> and a payload of one or more
  code units of the base64 alphabet. A text contains one when it occurs in it.
\<close>

definition data_url_literal :: "jsstring \<Rightarrow> bool" where
  "data_url_literal u \<longleftrightarrow>
     (\<exists>subtype payload.
        u = js ''data:image/'' @ subtype @ js '';base64,'' @ payload
        \<and> subtype \<noteq> [] \<and> list_all not_semicolon subtype
        \<and> payload \<noteq> [] \<and> list_all base64_char payload)"

definition contains_data_url :: "jsstring \<Rightarrow> bool" where
  "contains_data_url t \<longleftrightarrow> (\<exists>pre u post. t = pre @ u @ post \<and> data_url_literal u)"

subsection \<open>A storage that is full\<close>

text \<open>
  A \<open>localStorage\<close> with no room left: every \<open>setItem\<close> throws the quota error, as a
  browser does once the quota of the origin is used up.
\<close>

definition full_storage :: LocalStorage where
  "full_storage = \<lparr>items = Map.empty, refuses = (\<lambda>stored name v. Some QuotaExceededError)\<rparr>"

definition roomy_storage :: LocalStorage where
  "roomy_storage = \<lparr>items = Map.empty, refuses = (\<lambda>stored name v. None)\<rparr>"

subsection \<open>History items and example stores\<close>

text \<open>
  The item one call of \<open>addToHistory\<close> puts into the history, for the call's argument,
  identifier and time.
\<close>

definition stored :: "HistoryEntry \<times> jsstring \<times> int \<Rightarrow> HistoryItem" where
  "stored c = (case c of (item, uuid, now) \<Rightarrow> newItem item uuid now)"

text \<open>
  What the storage holds under the store's key was written by the store: a value all of
  whose history items have no image.
\<close>

definition written_clean :: "LocalStorage \<Rightarrow> bool" where
  "written_clean ls \<longleftrightarrow>
     (\<exists>v. items ls storage_name = Some v \<and> list_all (\<lambda>h. imageUrl h = None) (saved_history v))"

definition example_history :: "HistoryItem list" where
  "example_history =
     [newItem \<lparr>entry_schema = js ''schema B'', entry_imageUrl = None\<rparr> (js ''id-b'') 2,
      newItem \<lparr>entry_schema = js ''schema A'', entry_imageUrl = None\<rparr> (js ''id-a'') 1]"

definition example_store :: Store where
  "example_store =
     \<lparr>state = initialState\<lparr>generatedImage := Some (js ''data:image/png;base64,AAAA''),
                             history := example_history\<rparr>,
      storage = roomy_storage\<rparr>"

definition example_calls :: "(HistoryEntry \<times> jsstring \<times> int) list" where
  "example_calls =
     [(\<lparr>entry_schema = js ''s1'', entry_imageUrl = Some (js ''data:image/png;base64,AAAA'')\<rparr>, js ''a'', 1),
      (\<lparr>entry_schema = js ''s2'', entry_imageUrl = None\<rparr>, js ''b'', 2),
      (\<lparr>entry_schema = js ''s3'', entry_imageUrl = None\<rparr>, js ''c'', 3),
      (\<lparr>entry_schema = js ''s4'', entry_imageUrl = None\<rparr>, js ''d'', 4),
      (\<lparr>entry_schema = js ''s5'', entry_imageUrl = None\<rparr>, js ''e'', 5),
      (\<lparr>entry_schema = js ''s6'', entry_imageUrl = Some (js ''data:image/png;base64,BBBB'')\<rparr>, js ''f'', 6)]"

section \<open>Facts about the built-ins\<close>

subsection \<open>Replacement in the templates\<close>

text \<open>
  Each template is its text before the placeholder, the placeholder and the text after
  it. The text before has no opening brace, so the placeholder's first occurrence is
  the one on its own line, and \<open>replace\<close> keeps the text around it.
\<close>

lemma js_append: "js (a @ b) = js a @ js b"
  by (simp add: js_def)

lemma ARCHITECT_split:
  "ARCHITECT_PROMPT_TEMPLATE = js ARCHITECT_BEFORE @ js ''{paper_content}'' @ js ARCHITECT_AFTER"
  unfolding ARCHITECT_PROMPT_TEMPLATE_def ARCHITECT_BEFORE_def ARCHITECT_AFTER_def template_literal_def
  by (simp add: js_def)

lemma RENDERER_split:
  "RENDERER_PROMPT_TEMPLATE = js RENDERER_BEFORE @ js ''{visual_schema_content}'' @ js RENDERER_AFTER"
  unfolding RENDERER_PROMPT_TEMPLATE_def RENDERER_BEFORE_def RENDERER_AFTER_def template_literal_def
  by (simp add: js_def)

lemma RENDERER_WITH_REFERENCES_split:
  "RENDERER_WITH_REFERENCES_TEMPLATE
   = js RENDERER_WITH_REFERENCES_BEFORE @ js ''{visual_schema_content}'' @ js RENDERER_WITH_REFERENCES_AFTER"
  unfolding RENDERER_WITH_REFERENCES_TEMPLATE_def RENDERER_WITH_REFERENCES_BEFORE_def
    RENDERER_WITH_REFERENCES_AFTER_def template_literal_def
  by (simp add: js_def)

lemma stringIndexOf_fresh_head:
  "c \<notin> set pre \<Longrightarrow> stringIndexOf (pre @ (c # pat) @ post) (c # pat) = Some (length pre)"
  by (induction pre) auto

lemma js_replace_at_fresh_head:
  assumes "c \<notin> set pre"
  shows "js_replace (pre @ (c # pat) @ post) (c # pat) v
         = pre @ getSubstitution (c # pat) (pre @ (c # pat) @ post) (length pre) v @ post"
  using stringIndexOf_fresh_head[OF assms, of pat post]
  by (simp add: js_replace_def)

lemma getSubstitution_without_dollar:
  "0x24 \<notin> set v \<Longrightarrow> getSubstitution matched str position v = v"
  by (induction matched str position v rule: getSubstitution.induct) auto

lemma paper_placeholder: "js ''{paper_content}'' = 0x7B # js ''paper_content}''"
  by (simp add: js_def)

lemma schema_placeholder: "js ''{visual_schema_content}'' = 0x7B # js ''visual_schema_content}''"
  by (simp add: js_def)

lemma ARCHITECT_BEFORE_no_brace: "0x7B \<notin> set (js ARCHITECT_BEFORE)"
  unfolding ARCHITECT_BEFORE_def js_def by simp

lemma RENDERER_BEFORE_no_brace: "0x7B \<notin> set (js RENDERER_BEFORE)"
  unfolding RENDERER_BEFORE_def js_def by simp

lemma RENDERER_WITH_REFERENCES_BEFORE_no_brace: "0x7B \<notin> set (js RENDERER_WITH_REFERENCES_BEFORE)"
  unfolding RENDERER_WITH_REFERENCES_BEFORE_def js_def by simp

lemma generateSchema_prompt_split:
  "generateSchema_prompt v =
     js ARCHITECT_BEFORE
     @ getSubstitution (js ''{paper_content}'') ARCHITECT_PROMPT_TEMPLATE (length (js ARCHITECT_BEFORE)) v
     @ js ARCHITECT_AFTER"
  unfolding generateSchema_prompt_def
  unfolding ARCHITECT_split paper_placeholder
  by (rule js_replace_at_fresh_head[OF ARCHITECT_BEFORE_no_brace])

lemma renderImage_prompt_plain_split:
  "\<not> images_present refs \<Longrightarrow> renderImage_prompt v refs =
     js RENDERER_BEFORE
     @ getSubstitution (js ''{visual_schema_content}'') RENDERER_PROMPT_TEMPLATE (length (js RENDERER_BEFORE)) v
     @ js RENDERER_AFTER"
  unfolding renderImage_prompt_def
  unfolding RENDERER_split schema_placeholder
  using js_replace_at_fresh_head[OF RENDERER_BEFORE_no_brace] by simp

lemma renderImage_prompt_references_split:
  "images_present refs \<Longrightarrow> renderImage_prompt v refs =
     js RENDERER_WITH_REFERENCES_BEFORE
     @ getSubstitution (js ''{visual_schema_content}'') RENDERER_WITH_REFERENCES_TEMPLATE
         (length (js RENDERER_WITH_REFERENCES_BEFORE)) v
     @ js RENDERER_WITH_REFERENCES_AFTER"
  unfolding renderImage_prompt_def
  unfolding RENDERER_WITH_REFERENCES_split schema_placeholder
  using js_replace_at_fresh_head[OF RENDERER_WITH_REFERENCES_BEFORE_no_brace] by simp

lemma dollar_pair: "getSubstitution m s p (js ''$$E = mc2$$'') = js ''$E = mc2$''"
  by (simp add: js_def)

subsection \<open>The regular expressions\<close>

text \<open>
  A greedy class followed by literal text that starts outside the class can only
  match with its longest run: every shorter run is followed by a code unit of the
  class. The last greedy class of a pattern takes its longest run.
\<close>

lemma first_some_Cons: "first_some (y # ys) = (case y of None \<Rightarrow> first_some ys | Some v \<Rightarrow> Some v)"
  by (cases y) simp_all

lemma first_some_map_None: "first_some (map f xs) = None \<longleftrightarrow> (\<forall>x\<in>set xs. f x = None)"
  by (induction xs) (auto simp: first_some_Cons split: option.splits)

lemma candidates_Suc: "rev [Suc 0 ..< Suc (Suc m)] = Suc m # rev [Suc 0 ..< Suc m]"
  by simp

lemma take_length_eq_prefix: "take (length l) xs = l \<longleftrightarrow> prefix l xs"
  by (metis append_eq_conv_conj prefix_def)

lemma rx_match_Chars:
  "rx_match (Chars l # p) t i = (if prefix l (drop i t) then rx_match p t (i + length l) else None)"
  by (simp add: take_length_eq_prefix)

lemma rx_match_ClassPlus_final:
  "rx_match [ClassPlus cls] t i =
     (if takeWhile cls (drop i t) = [] then None
      else Some (i + length (takeWhile cls (drop i t))))"
  by (cases "length (takeWhile cls (drop i t))") (auto simp add: candidates_Suc simp del: upt_Suc)

lemma rx_match_ClassPlus_only_longest:
  assumes "\<And>k. 1 \<le> k \<Longrightarrow> k < length (takeWhile cls (drop i t)) \<Longrightarrow> rx_match p t (i + k) = None"
  shows "rx_match (ClassPlus cls # p) t i =
     (if takeWhile cls (drop i t) = [] then None
      else rx_match p t (i + length (takeWhile cls (drop i t))))"
proof (cases "length (takeWhile cls (drop i t))")
  case 0
  then show ?thesis by simp
next
  case (Suc m)
  have rest: "first_some (map (\<lambda>k. rx_match p t (i + k)) (rev [1 ..< Suc m])) = None"
    unfolding first_some_map_None using assms Suc by auto
  have "rx_match (ClassPlus cls # p) t i =
        first_some (map (\<lambda>k. rx_match p t (i + k)) (Suc m # rev [1 ..< Suc m]))"
    using Suc by (simp del: upt_Suc add: candidates_Suc)
  also have "\<dots> = rx_match p t (i + Suc m)"
    using rest by (simp add: first_some_Cons del: upt_Suc split: option.splits)
  finally show ?thesis using Suc by auto
qed

lemma inside_run:
  assumes "k < length (takeWhile cls r)"
  shows "\<exists>rest. drop k r = (r ! k) # rest \<and> cls (r ! k)"
proof -
  have "k < length r" using assms length_takeWhile_le[of cls r] by simp
  moreover have "cls (r ! k)"
    using assms by (metis nth_mem set_takeWhileD takeWhile_nth)
  ultimately show ?thesis by (metis Cons_nth_drop_Suc)
qed

lemma rx_match_ClassPlus_then_Chars:
  assumes "\<not> cls b"
  shows "rx_match (ClassPlus cls # Chars (b # bs) # p) t i =
     (if takeWhile cls (drop i t) = [] then None
      else rx_match (Chars (b # bs) # p) t (i + length (takeWhile cls (drop i t))))"
proof (rule rx_match_ClassPlus_only_longest)
  fix k assume "1 \<le> k" and k: "k < length (takeWhile cls (drop i t))"
  from inside_run[OF k] obtain rest where
    "drop k (drop i t) = (drop i t ! k) # rest" and c: "cls (drop i t ! k)" by blast
  then have "drop (i + k) t = (drop i t ! k) # rest" by (simp add: add.commute)
  then have "\<not> prefix (b # bs) (drop (i + k) t)" using c assms by auto
  then show "rx_match (Chars (b # bs) # p) t (i + k) = None"
    unfolding rx_match_Chars by simp
qed

text \<open>
  What the pattern \<open>literal class+ literal class+\<close> matches at an index: the first
  literal, a run of the first class up to the second literal, and the longest run of
  the second class.
\<close>

lemma drop_add_eq: "drop (i + k) t = drop k (drop i t)"
  by (simp add: add.commute)

lemma run_then: 
  assumes "list_all c xs" and "ys = [] \<or> \<not> c (hd ys)"
  shows "takeWhile c (xs @ ys) = xs"
proof -
  have "takeWhile c ys = []" using assms(2) by (cases ys) auto
  moreover have "\<And>x. x \<in> set xs \<Longrightarrow> c x" using assms(1) by (simp add: list_all_iff)
  ultimately show ?thesis by (simp add: takeWhile_append2)
qed

lemma lit_run_lit_run:
  assumes nb: "\<not> c1 b"
  shows "rx_match [Chars D, ClassPlus c1, Chars (b # bs), ClassPlus c2] t i = Some e \<longleftrightarrow>
    (\<exists>sub pay rest. drop i t = D @ sub @ (b # bs) @ pay @ rest
       \<and> sub \<noteq> [] \<and> list_all c1 sub \<and> pay \<noteq> [] \<and> list_all c2 pay
       \<and> (rest = [] \<or> \<not> c2 (hd rest))
       \<and> e = i + length D + length sub + length (b # bs) + length pay)"
    (is "?L \<longleftrightarrow> ?R")
proof
  assume L: ?L
  define r1 where "r1 = drop (i + length D) t"
  define sub where "sub = takeWhile c1 r1"
  define r2 where "r2 = drop (i + length D + length sub) t"
  define r3 where "r3 = drop (i + length D + length sub + length (b # bs)) t"
  define pay where "pay = takeWhile c2 r3"
  from L have pD: "prefix D (drop i t)"
    by (simp add: rx_match_Chars del: rx_match.simps split: if_splits)
  with L have 1: "rx_match [ClassPlus c1, Chars (b # bs), ClassPlus c2] t (i + length D) = Some e"
    by (simp add: rx_match_Chars del: rx_match.simps)
  then have s: "sub \<noteq> []"
    and 2: "rx_match [Chars (b # bs), ClassPlus c2] t (i + length D + length sub) = Some e"
    unfolding rx_match_ClassPlus_then_Chars[of c1 b, OF nb] sub_def r1_def
    by (simp_all del: rx_match.simps split: if_splits)
  from 2 have pB: "prefix (b # bs) r2"
    unfolding r2_def by (simp add: rx_match_Chars del: rx_match.simps split: if_splits)
  with 2 have 3: "rx_match [ClassPlus c2] t (i + length D + length sub + length (b # bs)) = Some e"
    unfolding r2_def by (simp add: rx_match_Chars del: rx_match.simps)
  then have p: "pay \<noteq> []" and e: "e = i + length D + length sub + length (b # bs) + length pay"
    unfolding rx_match_ClassPlus_final pay_def r3_def
    by (simp_all del: rx_match.simps split: if_splits)
  have a: "drop i t = D @ r1"
    using pD unfolding r1_def drop_add_eq by (metis append_eq_conv_conj prefix_def)
  have b: "r1 = sub @ r2"
    unfolding sub_def r2_def
    by (metis r1_def sub_def drop_add_eq takeWhile_dropWhile_id dropWhile_eq_drop)
  have c: "r2 = (b # bs) @ r3"
    using pB unfolding r3_def r2_def drop_add_eq[of _ "length (b # bs)"]
    by (metis append_eq_conv_conj prefix_def)
  have d: "r3 = pay @ dropWhile c2 r3"
    unfolding pay_def by simp
  have "dropWhile c2 r3 = [] \<or> \<not> c2 (hd (dropWhile c2 r3))"
    by (metis hd_dropWhile)
  moreover have "list_all c1 sub" unfolding sub_def list_all_iff by (metis set_takeWhileD)
  moreover have "list_all c2 pay" unfolding pay_def list_all_iff by (metis set_takeWhileD)
  moreover have "drop i t = D @ sub @ (b # bs) @ pay @ dropWhile c2 r3"
    using a b c d by metis
  ultimately show ?R using s p e by blast
next
  assume ?R
  then obtain sub pay rest where
    dec: "drop i t = D @ sub @ (b # bs) @ pay @ rest"
    and s: "sub \<noteq> []" "list_all c1 sub" and p: "pay \<noteq> []" "list_all c2 pay"
    and r: "rest = [] \<or> \<not> c2 (hd rest)"
    and e: "e = i + length D + length sub + length (b # bs) + length pay"
    by blast
  have pD: "prefix D (drop i t)" using dec by simp
  have r1: "drop (i + length D) t = sub @ (b # bs) @ pay @ rest"
    unfolding drop_add_eq dec by simp
  have tw1: "takeWhile c1 (drop (i + length D) t) = sub"
    unfolding r1 using run_then[OF s(2), of "(b # bs) @ pay @ rest"] nb by simp
  have r2: "drop (i + length D + length sub) t = (b # bs) @ pay @ rest"
    unfolding drop_add_eq[of "i + length D"] r1 by simp
  have r3: "drop (i + length D + length sub + length (b # bs)) t = pay @ rest"
    unfolding drop_add_eq[of "i + length D + length sub"] r2 by simp
  have tw2: "takeWhile c2 (drop (i + length D + length sub + length (b # bs)) t) = pay"
    unfolding r3 using run_then[OF p(2) r] .
  have "rx_match [ClassPlus c2] t (i + length D + length sub + length (b # bs)) = Some e"
    unfolding rx_match_ClassPlus_final tw2 using p e by simp
  then have "rx_match [Chars (b # bs), ClassPlus c2] t (i + length D + length sub) = Some e"
    unfolding rx_match_Chars[of "b # bs"] r2 by (simp del: rx_match.simps)
  then have "rx_match [ClassPlus c1, Chars (b # bs), ClassPlus c2] t (i + length D) = Some e"
    unfolding rx_match_ClassPlus_then_Chars[of c1 b, OF nb] tw1 using s by (simp del: rx_match.simps)
  then show ?L
    unfolding rx_match_Chars[of D] using pD by (simp del: rx_match.simps)
qed

text \<open>
  \<open>regex_exec\<close> gives the match at the least index that has one. The embedded-image
  pattern finds a match exactly in the texts that contain a data-URL literal.
\<close>

lemma first_some_append:
  "first_some (xs @ ys) = (case first_some xs of None \<Rightarrow> first_some ys | Some v \<Rightarrow> Some v)"
  by (induction xs rule: first_some.induct) simp_all

lemma first_some_upt_Some:
  "first_some (map f [0 ..< n]) = Some y \<longleftrightarrow> (\<exists>i<n. f i = Some y \<and> (\<forall>j<i. f j = None))"
proof (induction n arbitrary: y)
  case 0
  then show ?case by simp
next
  case (Suc n)
  show ?case
  proof (cases "first_some (map f [0 ..< n])")
    case None
    then have allNone: "\<forall>j<n. f j = None" by (simp add: first_some_map_None)
    have "first_some (map f [0 ..< Suc n]) = f n"
      using None by (simp add: first_some_append first_some_Cons split: option.splits)
    moreover have "(\<exists>i<Suc n. f i = Some y \<and> (\<forall>j<i. f j = None)) \<longleftrightarrow> f n = Some y"
      using allNone by (metis less_Suc_eq option.distinct(1))
    ultimately show ?thesis by simp
  next
    case (Some v)
    then obtain i where i: "i < n" "f i = Some v" "\<forall>j<i. f j = None"
      using Suc.IH[of v] by blast
    have "first_some (map f [0 ..< Suc n]) = Some v"
      using Some by (simp add: first_some_append)
    moreover have "(\<exists>i<Suc n. f i = Some y \<and> (\<forall>j<i. f j = None)) \<longleftrightarrow> v = y"
      using i by (metis less_Suc_eq linorder_neqE_nat option.distinct(1) option.inject)
    ultimately show ?thesis by simp
  qed
qed

lemma regex_exec_Some:
  "regex_exec p t = Some (i, e) \<longleftrightarrow>
     i \<le> length t \<and> rx_match p t i = Some e \<and> (\<forall>j<i. rx_match p t j = None)"
proof -
  let ?f = "\<lambda>i. map_option (\<lambda>e. (i, e)) (rx_match p t i)"
  have "regex_exec p t = Some (i, e) \<longleftrightarrow>
        (\<exists>k<Suc (length t). ?f k = Some (i, e) \<and> (\<forall>j<k. ?f j = None))"
    unfolding regex_exec_def by (rule first_some_upt_Some)
  also have "\<dots> \<longleftrightarrow> i \<le> length t \<and> rx_match p t i = Some e \<and> (\<forall>j<i. rx_match p t j = None)"
    by (auto simp: less_Suc_eq_le)
  finally show ?thesis .
qed

lemma regex_exec_None:
  "regex_exec p t = None \<longleftrightarrow> (\<forall>i\<le>length t. rx_match p t i = None)"
  unfolding regex_exec_def first_some_map_None by (auto simp: less_Suc_eq_le)

lemma semicolon_literal: "js '';base64,'' = 0x3B # js ''base64,''"
  by (simp add: js_def)

lemma base64Pattern_match:
  "rx_match base64Pattern t i = Some e \<longleftrightarrow>
    (\<exists>sub pay rest. drop i t = js ''data:image/'' @ sub @ js '';base64,'' @ pay @ rest
       \<and> sub \<noteq> [] \<and> list_all not_semicolon sub \<and> pay \<noteq> [] \<and> list_all base64_char pay
       \<and> (rest = [] \<or> \<not> base64_char (hd rest))
       \<and> e = i + length (js ''data:image/'' @ sub @ js '';base64,'' @ pay))"
  unfolding base64Pattern_def semicolon_literal
  using lit_run_lit_run[of not_semicolon "0x3B" "js ''data:image/''" "js ''base64,''" base64_char t i e]
  by (simp add: not_semicolon_def add.assoc del: rx_match.simps)

lemma rx_match_beyond: "length t < i \<Longrightarrow> rx_match base64Pattern t i = None"
proof (rule ccontr)
  assume a: "length t < i" and "rx_match base64Pattern t i \<noteq> None"
  then obtain e where "rx_match base64Pattern t i = Some e" by auto
  then obtain sub pay rest where "drop i t = js ''data:image/'' @ sub @ js '';base64,'' @ pay @ rest"
    unfolding base64Pattern_match by blast
  then show False using a by (simp add: js_def)
qed

lemma literal_is_matched:
  assumes "t = pre @ u @ post" "data_url_literal u"
  shows "\<exists>e. rx_match base64Pattern t (length pre) = Some e \<and> length pre + length u \<le> e"
proof -
  from assms(2) obtain sub pay where u: "u = js ''data:image/'' @ sub @ js '';base64,'' @ pay"
    and s: "sub \<noteq> []" "list_all not_semicolon sub" and p: "pay \<noteq> []" "list_all base64_char pay"
    unfolding data_url_literal_def by blast
  define pay' where "pay' = pay @ takeWhile base64_char post"
  define rest where "rest = dropWhile base64_char post"
  have d: "drop (length pre) t = js ''data:image/'' @ sub @ js '';base64,'' @ pay' @ rest"
    unfolding assms(1) u pay'_def rest_def by simp
  have "list_all base64_char pay'" using p(2) unfolding pay'_def list_all_iff
    by (auto dest: set_takeWhileD)
  moreover have "pay' \<noteq> []" using p(1) unfolding pay'_def by simp
  moreover have "rest = [] \<or> \<not> base64_char (hd rest)" unfolding rest_def by (metis hd_dropWhile)
  ultimately have "rx_match base64Pattern t (length pre)
      = Some (length pre + length (js ''data:image/'' @ sub @ js '';base64,'' @ pay'))"
    unfolding base64Pattern_match using d s by blast
  moreover have "length u \<le> length (js ''data:image/'' @ sub @ js '';base64,'' @ pay')"
    unfolding u pay'_def by simp
  ultimately show ?thesis by simp
qed

lemma js_match_None_iff: "js_match t base64Pattern = None \<longleftrightarrow> \<not> contains_data_url t"
proof
  assume n: "js_match t base64Pattern = None"
  show "\<not> contains_data_url t"
  proof
    assume "contains_data_url t"
    then obtain pre u post where t: "t = pre @ u @ post" and u: "data_url_literal u"
      unfolding contains_data_url_def by blast
    from literal_is_matched[OF t u] obtain e where "rx_match base64Pattern t (length pre) = Some e"
      by blast
    moreover have "length pre \<le> length t" using t by simp
    ultimately have "regex_exec base64Pattern t \<noteq> None"
      unfolding regex_exec_None by force
    then show False using n by (simp add: js_match_def)
  qed
next
  assume c: "\<not> contains_data_url t"
  have "rx_match base64Pattern t i = None" for i
  proof (rule ccontr)
    assume "rx_match base64Pattern t i \<noteq> None"
    then obtain e where e: "rx_match base64Pattern t i = Some e" by auto
    then obtain sub pay rest where d: "drop i t = js ''data:image/'' @ sub @ js '';base64,'' @ pay @ rest"
       and ok: "sub \<noteq> []" "list_all not_semicolon sub" "pay \<noteq> []" "list_all base64_char pay"
      unfolding base64Pattern_match by blast
    have "data_url_literal (js ''data:image/'' @ sub @ js '';base64,'' @ pay)"
      unfolding data_url_literal_def using ok by blast
    moreover have "t = take i t @ (js ''data:image/'' @ sub @ js '';base64,'' @ pay) @ rest"
      using d by (metis append_take_drop_id append.assoc)
    ultimately show False using c unfolding contains_data_url_def by blast
  qed
  then show "js_match t base64Pattern = None"
    by (simp add: js_match_def regex_exec_None)
qed

text \<open>
  The anchored pattern holds of the non-empty texts made of its class alone.
\<close>

lemma takeWhile_all_iff: "length (takeWhile c t) = length t \<longleftrightarrow> list_all c t"
proof (induction t)
  case Nil
  then show ?case by simp
next
  case (Cons a t)
  then show ?case by simp
qed

lemma rawBase64Pattern_at_0:
  "rx_match rawBase64Pattern t 0 = (if t \<noteq> [] \<and> list_all base64_or_space t then Some (length t) else None)"
proof -
  have "rx_match [ClassPlus base64_or_space, AssertEnd] t 0 =
     (if takeWhile base64_or_space (drop 0 t) = [] then None
      else rx_match [AssertEnd] t (0 + length (takeWhile base64_or_space (drop 0 t))))"
  proof (rule rx_match_ClassPlus_only_longest)
    fix k assume "k < length (takeWhile base64_or_space (drop 0 t))"
    then have "k < length t" using length_takeWhile_le[of base64_or_space t] by simp
    then show "rx_match [AssertEnd] t (0 + k) = None" by simp
  qed
  then have 1: "rx_match [ClassPlus base64_or_space, AssertEnd] t 0 =
     (if takeWhile base64_or_space t = [] then None
      else if length (takeWhile base64_or_space t) = length t then Some (length t) else None)"
    by (simp del: rx_match.simps(3))
  have 2: "rx_match rawBase64Pattern t 0 = rx_match [ClassPlus base64_or_space, AssertEnd] t 0"
    unfolding rawBase64Pattern_def by (simp del: rx_match.simps(3))
  have 3: "takeWhile base64_or_space t = [] \<longleftrightarrow> t = [] \<or> \<not> base64_or_space (hd t)"
    by (cases t) simp_all
  have 4: "list_all base64_or_space t \<Longrightarrow> t \<noteq> [] \<Longrightarrow> base64_or_space (hd t)"
    by (cases t) simp_all
  show ?thesis
    unfolding 2 1 3 takeWhile_all_iff using 4 by auto
qed

lemma rawBase64Pattern_later: "0 < i \<Longrightarrow> rx_match rawBase64Pattern t i = None"
  unfolding rawBase64Pattern_def by (simp del: rx_match.simps(3))

lemma js_test_rawBase64Pattern:
  "js_test rawBase64Pattern t \<longleftrightarrow> t \<noteq> [] \<and> list_all base64_or_space t"
proof -
  have "(\<forall>i\<le>length t. rx_match rawBase64Pattern t i = None)
        \<longleftrightarrow> rx_match rawBase64Pattern t 0 = None"
  proof
    assume "\<forall>i\<le>length t. rx_match rawBase64Pattern t i = None"
    then show "rx_match rawBase64Pattern t 0 = None" by simp
  next
    assume z: "rx_match rawBase64Pattern t 0 = None"
    show "\<forall>i\<le>length t. rx_match rawBase64Pattern t i = None"
    proof (intro allI impI)
      fix i show "rx_match rawBase64Pattern t i = None"
        using z rawBase64Pattern_later[of i t] by (cases "i = 0") simp_all
    qed
  qed
  then have "js_test rawBase64Pattern t \<longleftrightarrow> rx_match rawBase64Pattern t 0 \<noteq> None"
    by (simp only: js_test_def regex_exec_None)
  also have "\<dots> \<longleftrightarrow> t \<noteq> [] \<and> list_all base64_or_space t"
    by (simp only: rawBase64Pattern_at_0 if_distrib[of "\<lambda>x. x \<noteq> None"] option.simps
                   not_False_eq_True not_True_eq_False simp_thms if_bool_eq_conj)
  finally show ?thesis .
qed

lemma contains_data_url_colon: "contains_data_url t \<Longrightarrow> 0x3A \<in> set t"
  by (auto simp: contains_data_url_def data_url_literal_def js_def)

lemma stringIndexOf_least:
  "stringIndexOf t p = Some n \<Longrightarrow> k < n \<Longrightarrow> \<not> prefix p (drop k t)"
proof (induction t arbitrary: n k)
  case Nil
  then show ?case by (simp split: if_splits)
next
  case (Cons c cs)
  show ?case
  proof (cases "prefix p (c # cs)")
    case True
    then show ?thesis using Cons.prems by simp
  next
    case False
    then obtain m where m: "stringIndexOf cs p = Some m" "n = Suc m"
      using Cons.prems(1) by auto
    show ?thesis
    proof (cases k)
      case 0
      then show ?thesis using False by simp
    next
      case (Suc k')
      then show ?thesis using Cons.IH[OF m(1), of k'] Cons.prems(2) m(2) by simp
    qed
  qed
qed

lemma data_url_literal_scheme: "data_url_literal u \<Longrightarrow> prefix (js ''data:image/'') u"
  unfolding data_url_literal_def by auto

lemma renderImage_result_match:
  "js_match t base64Pattern = Some u \<Longrightarrow> t \<noteq> [] \<Longrightarrow>
   renderImage_result t = \<lparr>response_imageUrl = Some u, response_text = None\<rparr>"
  by (simp add: renderImage_result_def)

lemma js_match_Some:
  "regex_exec p t = Some (i, e) \<Longrightarrow> js_match t p = Some (take (e - i) (drop i t))"
  by (simp add: js_match_def)

text \<open>
  A literal that stands where the scheme \<open>data:image/\<close> first occurs in the text, and
  is not followed by a base64 character, is what \<open>renderImage\<close> returns.
\<close>

lemma literal_at_first_scheme:
  assumes lit: "data_url_literal u"
    and first: "stringIndexOf (pre @ u @ post) (js ''data:image/'') = Some (length pre)"
    and stop: "post = [] \<or> \<not> base64_char (hd post)"
  shows "renderImage_result (pre @ u @ post) = \<lparr>response_imageUrl = Some u, response_text = None\<rparr>"
proof -
  let ?t = "pre @ u @ post"
  from lit obtain sub pay where u: "u = js ''data:image/'' @ sub @ js '';base64,'' @ pay"
    and ok: "sub \<noteq> []" "list_all not_semicolon sub" "pay \<noteq> []" "list_all base64_char pay"
    unfolding data_url_literal_def by blast
  have "drop (length pre) ?t = js ''data:image/'' @ sub @ js '';base64,'' @ pay @ post"
    unfolding u by simp
  then have m: "rx_match base64Pattern ?t (length pre) = Some (length pre + length u)"
    unfolding base64Pattern_match u using ok stop by blast
  have least: "rx_match base64Pattern ?t j = None" if "j < length pre" for j
  proof (rule ccontr)
    assume "rx_match base64Pattern ?t j \<noteq> None"
    then obtain e where "rx_match base64Pattern ?t j = Some e" by auto
    then have "prefix (js ''data:image/'') (drop j ?t)"
      unfolding base64Pattern_match by auto
    then show False using stringIndexOf_least[OF first that] by blast
  qed
  have "regex_exec base64Pattern ?t = Some (length pre, length pre + length u)"
    unfolding regex_exec_Some using m least by simp
  from js_match_Some[OF this] have "js_match ?t base64Pattern = Some u" by simp
  moreover have "?t \<noteq> []" using u by (simp add: js_def)
  ultimately show ?thesis by (rule renderImage_result_match)
qed

subsection \<open>The store\<close>

text \<open>
  \<open>set\<close> changes the state in memory whatever the storage does. \<open>addToHistory\<close> has
  two outcomes: the write is accepted, or it is refused with the quota error, and then
  the write of the handler is refused as well, since it writes the same value.
\<close>

lemma state_persist_set: "state (snd (persist_set f st)) = f (state st)"
  by (simp add: persist_set_def Let_def split: sum.splits)

lemma partialize_storageWarning: "partialize (s\<lparr>storageWarning := w\<rparr>) = partialize s"
  by (simp add: partialize_def)

lemma addToHistory_outcome:
  fixes item uuid now st
  defines "s1 \<equiv> (state st)\<lparr>history := newItem item uuid now # take (MAX_HISTORY_ITEMS - 1) (history (state st)),
                               storageWarning := False\<rparr>"
  shows "addToHistory item uuid now st =
     (case safeStorage_setItem (storage st) storage_name (partialize s1) of
        Inr ls' \<Rightarrow> (Inr (), \<lparr>state = s1, storage = ls'\<rparr>)
      | Inl e \<Rightarrow> (Inl e, \<lparr>state = s1\<lparr>storageWarning := True\<rparr>, storage = storage st\<rparr>))"
  unfolding addToHistory_def persist_set_def s1_def Let_def
  by (simp add: partialize_storageWarning split: sum.splits)

lemma history_addToHistory:
  "history (state (snd (addToHistory item uuid now st)))
   = newItem item uuid now # take 4 (history (state st))"
  unfolding addToHistory_outcome by (simp add: MAX_HISTORY_ITEMS_def split: sum.splits)

lemma take_Cons_take: "n \<le> Suc k \<Longrightarrow> take n (x # take k h) = take n (x # h)"
  by (cases n) (simp_all add: min_def)

lemma take_append_Cons_take:
  "take 5 (xs @ x # take 4 h) = take 5 (xs @ x # h)"
  using take_Cons_take[of "5 - length xs" 4 x h] by simp

lemma history_addToHistory_calls:
  "history (state (addToHistory_calls calls st))
   = take 5 (rev (map stored calls) @ history (state st))" if "calls \<noteq> []"
  using that
proof (induction calls arbitrary: st)
  case Nil
  then show ?case by simp
next
  case (Cons c calls)
  obtain item uuid now where c: "c = (item, uuid, now)" by (cases c) auto
  show ?case
  proof (cases "calls = []")
    case True
    then show ?thesis by (simp add: c history_addToHistory stored_def)
  next
    case False
    let ?st1 = "snd (addToHistory item uuid now st)"
    have "history (state (addToHistory_calls (c # calls) st))
          = take 5 (rev (map stored calls) @ history (state ?st1))"
      using Cons.IH[OF False, of ?st1] by (simp add: c)
    also have "\<dots> = take 5 (rev (map stored calls) @ stored c # take 4 (history (state st)))"
      by (simp only: history_addToHistory c stored_def prod.case)
    also have "\<dots> = take 5 (rev (map stored calls) @ stored c # history (state st))"
      by (rule take_append_Cons_take)
    finally show ?thesis by simp
  qed
qed

lemma stored_imageUrl: "imageUrl (stored c) = None"
  by (cases c) (simp add: stored_def newItem_def)

lemma partialize_clean: "h \<in> set (saved_history (partialize s)) \<Longrightarrow> imageUrl h = None"
  by (auto simp: partialize_def)

lemma persist_set_storage:
  "storage (snd (persist_set f st)) = storage st \<or> written_clean (storage (snd (persist_set f st)))"
  by (auto simp: persist_set_def Let_def safeStorage_setItem_def localStorage_setItem_def
      written_clean_def partialize_def list_all_iff split: sum.splits option.splits if_splits)

lemma addToHistory_storage:
  "storage (snd (addToHistory item uuid now st)) = storage st
   \<or> written_clean (storage (snd (addToHistory item uuid now st)))"
proof -
  let ?f = "\<lambda>s. s\<lparr>history := newItem item uuid now # take (MAX_HISTORY_ITEMS - 1) (history (state st)),
                    storageWarning := False\<rparr>"
  let ?g = "\<lambda>s. s\<lparr>storageWarning := True\<rparr>"
  show ?thesis
  proof (cases "persist_set ?f st")
    case (Pair r st1)
    have s1: "storage st1 = storage st \<or> written_clean (storage st1)"
      using persist_set_storage[of ?f st] Pair by simp
    show ?thesis
    proof (cases r)
      case (Inr u)
      then show ?thesis using s1 Pair by (simp add: addToHistory_def Let_def)
    next
      case (Inl e)
      then have "addToHistory item uuid now st = persist_set ?g st1"
        using Pair by (simp add: addToHistory_def Let_def)
      then show ?thesis using s1 persist_set_storage[of ?g st1] by auto
    qed
  qed
qed

lemma addToHistory_calls_storage:
  "items (storage (addToHistory_calls calls st)) storage_name = items (storage st) storage_name
   \<or> written_clean (storage (addToHistory_calls calls st))"
proof (induction calls arbitrary: st)
  case Nil
  then show ?case by simp
next
  case (Cons c calls)
  obtain item uuid now where c: "c = (item, uuid, now)" by (cases c) auto
  let ?st1 = "snd (addToHistory item uuid now st)"
  from Cons.IH[of ?st1] addToHistory_storage[of item uuid now st]
  show ?case unfolding c by (auto simp: written_clean_def)
qed

lemma find_first:
  "h \<in> set xs \<Longrightarrow> P h \<Longrightarrow>
   \<exists>pre item post. xs = pre @ item # post \<and> P item \<and> (\<forall>x\<in>set pre. \<not> P x) \<and> find P xs = Some item"
proof (induction xs)
  case Nil
  then show ?case by simp
next
  case (Cons a xs)
  show ?case
  proof (cases "P a")
    case True
    then have "a # xs = [] @ a # xs \<and> P a \<and> (\<forall>x\<in>set []. \<not> P x) \<and> find P (a # xs) = Some a"
      by simp
    then show ?thesis by blast
  next
    case False
    then have "h \<in> set xs" using Cons.prems by auto
    from Cons.IH[OF this Cons.prems(2)] obtain pre item post where
      "xs = pre @ item # post" "P item" "\<forall>x\<in>set pre. \<not> P x" "find P xs = Some item" by blast
    then have "a # xs = (a # pre) @ item # post \<and> P item \<and> (\<forall>x\<in>set (a # pre). \<not> P x)
       \<and> find P (a # xs) = Some item"
      using False by simp
    then show ?thesis by blast
  qed
qed

subsection \<open>The gateway functions\<close>

text \<open>
  Each gateway function makes one remote call, with one user message whose content is
  the content-part sequence, and hands a rejection on as it is. \<open>renderImage\<close> returns
  \<open>renderImage_result\<close> of the text of the first choice.
\<close>

lemma generateSchema_rejected:
  "create (apiKey config) (baseUrl config)
     \<lparr>model = modelName config, messages = [(User, generateSchema_content paper images)],
      max_tokens = 4096\<rparr> = Inl e
   \<Longrightarrow> generateSchema create paper config images = Inl e"
  by (simp add: generateSchema_def)

lemma generateSchema_returned:
  "create (apiKey config) (baseUrl config)
     \<lparr>model = modelName config, messages = [(User, generateSchema_content paper images)],
      max_tokens = 4096\<rparr> = Inr response
   \<Longrightarrow> generateSchema create paper config images
       = Inr \<lparr>response_schema = first_message_content response\<rparr>"
  by (simp add: generateSchema_def)

lemma renderImage_rejected:
  "create (apiKey config) (baseUrl config)
     \<lparr>model = modelName config, messages = [(User, renderImage_content vs refs)],
      max_tokens = 4096\<rparr> = Inl e
   \<Longrightarrow> renderImage create vs config refs = Inl e"
  by (simp add: renderImage_def)

lemma renderImage_returned:
  "create (apiKey config) (baseUrl config)
     \<lparr>model = modelName config, messages = [(User, renderImage_content vs refs)],
      max_tokens = 4096\<rparr> = Inr response
   \<Longrightarrow> renderImage create vs config refs
       = Inr (renderImage_result (first_message_content response))"
  by (simp add: renderImage_def)

lemma first_message_content_absent:
  "first_message_content \<lparr>choices = []\<rparr> = []"
  "first_message_content \<lparr>choices = \<lparr>message = None\<rparr> # cs\<rparr> = []"
  "first_message_content \<lparr>choices = \<lparr>message = Some \<lparr>content = None\<rparr>\<rparr> # cs\<rparr> = []"
  "first_message_content \<lparr>choices = \<lparr>message = Some \<lparr>content = Some c\<rparr>\<rparr> # cs\<rparr> = c"
  by (simp_all add: first_message_content_def)

section \<open>The properties\<close>

subsection \<open>Content parts of a request\<close>

text \<open>
  Claim C1. For every prompt text and every list of K image payloads with K at least 1,
  \<open>generateSchema\<close> and \<open>renderImage\<close> build a content-part sequence of length K + 1:
  the K image parts, carrying the payloads in their input order, followed by one text
  part that holds the whole prompt. With no image (the list absent or empty) the
  sequence is the single text part.
\<close>

theorem content_parts_images_then_text:
  "(1 \<le> length images \<longrightarrow>
      generateSchema_content paper (Some images)
        = map ImageUrlPart images @ [TextPart (generateSchema_prompt paper)]
      \<and> length (generateSchema_content paper (Some images)) = length images + 1
      \<and> renderImage_content vs (Some images)
        = map ImageUrlPart images @ [TextPart (renderImage_prompt vs (Some images))]
      \<and> length (renderImage_content vs (Some images)) = length images + 1)
   \<and> generateSchema_content paper None = [TextPart (generateSchema_prompt paper)]
   \<and> generateSchema_content paper (Some []) = [TextPart (generateSchema_prompt paper)]
   \<and> renderImage_content vs None = [TextPart (renderImage_prompt vs None)]
   \<and> renderImage_content vs (Some []) = [TextPart (renderImage_prompt vs (Some []))]"
  by (auto simp add: generateSchema_content_def renderImage_content_def Let_def)

theorem content_parts_images_then_text_witness:
  "1 \<le> length [js ''page-1'', js ''page-2'']
   \<and> generateSchema_content (js ''abstract'') (Some [js ''page-1'', js ''page-2''])
       = [ImageUrlPart (js ''page-1''), ImageUrlPart (js ''page-2''),
          TextPart (generateSchema_prompt (js ''abstract''))]
   \<and> renderImage_content (js ''schema'') (Some [js ''page-1'', js ''page-2''])
       = [ImageUrlPart (js ''page-1''), ImageUrlPart (js ''page-2''),
          TextPart (renderImage_prompt (js ''schema'') (Some [js ''page-1'', js ''page-2'']))]"
  using content_parts_images_then_text
          [of "[js ''page-1'', js ''page-2'']" "js ''abstract''" "js ''schema''"]
  by simp

subsection \<open>A response without an embedded image\<close>

text \<open>
  Claim C2. For every extracted response text that contains no embedded data-URL image
  literal, \<open>renderImage\<close> returns the image URL \<open>data:image/png;base64,\<close> followed by
  the trimmed text, and no text, exactly when the text is longer than 1000 code units
  and consists of base64-alphabet characters and white space only; in every other such
  case it returns no image and the text as it is. For the empty text the result has no
  image and the empty string as its text.
\<close>

theorem renderImage_without_data_url:
  assumes "\<not> contains_data_url t"
  shows "renderImage_result t =
           (if 1000 < length t \<and> list_all base64_or_space t
            then \<lparr>response_imageUrl = Some (js ''data:image/png;base64,'' @ js_trim t),
                  response_text = None\<rparr>
            else \<lparr>response_imageUrl = None, response_text = Some t\<rparr>)
         \<and> renderImage_result [] = \<lparr>response_imageUrl = None, response_text = Some []\<rparr>"
proof -
  have "js_match t base64Pattern = None" using assms by (simp add: js_match_None_iff)
  then show ?thesis
    by (auto simp: renderImage_result_def js_test_rawBase64Pattern)
qed

theorem renderImage_without_data_url_witness:
  "\<not> contains_data_url (js ''I cannot draw this diagram.'')
   \<and> renderImage_result (js ''I cannot draw this diagram.'')
       = \<lparr>response_imageUrl = None, response_text = Some (js ''I cannot draw this diagram.'')\<rparr>
   \<and> \<not> contains_data_url (replicate 1001 0x41)
   \<and> renderImage_result (replicate 1001 0x41)
       = \<lparr>response_imageUrl = Some (js ''data:image/png;base64,'' @ replicate 1001 0x41),
          response_text = None\<rparr>
   \<and> renderImage_result (replicate 1000 0x41)
       = \<lparr>response_imageUrl = None, response_text = Some (replicate 1000 0x41)\<rparr>"
proof -
  have a: "\<not> contains_data_url (js ''I cannot draw this diagram.'')"
    using contains_data_url_colon[of "js ''I cannot draw this diagram.''"] by (auto simp: js_def)
  have b: "\<not> contains_data_url (replicate n 0x41)" for n
    using contains_data_url_colon[of "replicate n 0x41"] by auto
  have c: "base64_or_space 0x41" by (simp add: base64_or_space_def base64_char_def)
  have d: "\<not> is_white_space 0x41" by (simp add: is_white_space_def)
  have e: "js_trim (replicate n 0x41) = replicate n 0x41" for n
    using d by (simp add: js_trim_def dropWhile_replicate)
  have short: "\<not> 1000 < length (js ''I cannot draw this diagram.'')"
    by (simp add: js_def)
  show ?thesis
    using a b[of 1001] b[of 1000] renderImage_without_data_url[OF a] renderImage_without_data_url[OF b[of 1001]] renderImage_without_data_url[OF b[of 1000]] c e[of 1001] short
    by (simp add: list_all_iff)
qed

subsection \<open>A response with an embedded image\<close>

text \<open>
  Claim C3. For every response text that contains an embedded data-URL image literal,
  \<open>renderImage\<close> returns the first such literal of the text as the image URL, and no
  text; this check comes before the one for a raw base64 text. In particular, for a
  text that contains the literal \<open>data:image/png;base64,AAAA\<close> inside a sentence, the
  image URL is that literal.

  The first part holds: the result is the literal that starts leftmost, with the
  longest payload there. The second part fails as it is worded. A media subtype is any
  run without a semicolon, so in
  \<open>I will output data:image/png as data:image/png;base64,AAAA now\<close> the first literal
  starts at the earlier \<open>data:image/\<close> and the result is
  \<open>data:image/png as data:image/png;base64,AAAA\<close>. It holds when the scheme
  \<open>data:image/\<close> does not occur before the literal and what follows the literal is not
  a base64 character.
\<close>

theorem renderImage_first_data_url:
  "(contains_data_url t \<longrightarrow>
      (\<exists>pre u post. t = pre @ u @ post \<and> data_url_literal u
         \<and> (\<forall>pre' u' post'. t = pre' @ u' @ post' \<and> data_url_literal u' \<longrightarrow>
               length pre < length pre' \<or> (length pre' = length pre \<and> length u' \<le> length u))
         \<and> renderImage_result t = \<lparr>response_imageUrl = Some u, response_text = None\<rparr>))
   \<and> (data_url_literal u \<and> stringIndexOf (pre @ u @ post) (js ''data:image/'') = Some (length pre)
        \<and> (post = [] \<or> \<not> base64_char (hd post)) \<longrightarrow>
      renderImage_result (pre @ u @ post) = \<lparr>response_imageUrl = Some u, response_text = None\<rparr>)"
proof (intro conjI impI)
  assume c: "contains_data_url t"
  then obtain pre0 u0 post0 where t0: "t = pre0 @ u0 @ post0" and u0: "data_url_literal u0"
    unfolding contains_data_url_def by blast
  have "js_match t base64Pattern \<noteq> None" using c js_match_None_iff by blast
  then obtain i e where ex: "regex_exec base64Pattern t = Some (i, e)"
    unfolding js_match_def by (cases "regex_exec base64Pattern t") auto
  then have i: "i \<le> length t" and m: "rx_match base64Pattern t i = Some e"
    and least: "\<And>j. j < i \<Longrightarrow> rx_match base64Pattern t j = None"
    unfolding regex_exec_Some by blast+
  from m obtain sub pay rest where
    d: "drop i t = js ''data:image/'' @ sub @ js '';base64,'' @ pay @ rest"
    and ok: "sub \<noteq> []" "list_all not_semicolon sub" "pay \<noteq> []" "list_all base64_char pay"
    and e: "e = i + length (js ''data:image/'' @ sub @ js '';base64,'' @ pay)"
    unfolding base64Pattern_match by blast
  define u where "u = js ''data:image/'' @ sub @ js '';base64,'' @ pay"
  have lit: "data_url_literal u" unfolding u_def data_url_literal_def using ok by blast
  have du: "drop i t = u @ rest" using d unfolding u_def by simp
  have t: "t = take i t @ u @ rest" using du by (metis append_take_drop_id)
  have len: "length (take i t) = i" using i by simp
  have "js_match t base64Pattern = Some (take (e - i) (drop i t))"
    using ex by (rule js_match_Some)
  also have "take (e - i) (drop i t) = u" unfolding du e u_def[symmetric] by simp
  finally have jm: "js_match t base64Pattern = Some u" .
  have ne: "t \<noteq> []" using t0 u0 unfolding data_url_literal_def by auto
  have res: "renderImage_result t = \<lparr>response_imageUrl = Some u, response_text = None\<rparr>"
    using renderImage_result_match[OF jm ne] .
  have first: "length (take i t) < length pre' \<or> (length pre' = length (take i t) \<and> length u' \<le> length u)"
    if "t = pre' @ u' @ post'" "data_url_literal u'" for pre' u' post'
  proof -
    from literal_is_matched[OF that] obtain e' where
      e': "rx_match base64Pattern t (length pre') = Some e'" "length pre' + length u' \<le> e'" by blast
    have "\<not> length pre' < i" using least[of "length pre'"] e'(1) by auto
    moreover have "length u' \<le> length u" if "length pre' = i"
      using that e' m e unfolding u_def[symmetric] by simp
    ultimately show ?thesis unfolding len by linarith
  qed
  show "\<exists>pre u post. t = pre @ u @ post \<and> data_url_literal u
         \<and> (\<forall>pre' u' post'. t = pre' @ u' @ post' \<and> data_url_literal u' \<longrightarrow>
               length pre < length pre' \<or> (length pre' = length pre \<and> length u' \<le> length u))
         \<and> renderImage_result t = \<lparr>response_imageUrl = Some u, response_text = None\<rparr>"
    using t lit first res by blast
next
  assume "data_url_literal u \<and> stringIndexOf (pre @ u @ post) (js ''data:image/'') = Some (length pre)
        \<and> (post = [] \<or> \<not> base64_char (hd post))"
  then show "renderImage_result (pre @ u @ post) = \<lparr>response_imageUrl = Some u, response_text = None\<rparr>"
    using literal_at_first_scheme[of u pre post] by blast
qed

theorem renderImage_first_data_url_witness:
  "contains_data_url (js ''See data:image/png;base64,AAAA above.'')
   \<and> data_url_literal (js ''data:image/png;base64,AAAA'')
   \<and> renderImage_result (js ''See data:image/png;base64,AAAA above.'')
       = \<lparr>response_imageUrl = Some (js ''data:image/png;base64,AAAA''), response_text = None\<rparr>"
proof -
  let ?pre = "js ''See ''" and ?u = "js ''data:image/png;base64,AAAA''" and ?post = "js '' above.''"
  have cat: "?pre @ ?u @ ?post = js ''See data:image/png;base64,AAAA above.''"
    by (simp add: js_def)
  have split: "?u = js ''data:image/'' @ js ''png'' @ js '';base64,'' @ js ''AAAA''"
    by (simp add: js_def)
  have lit: "data_url_literal ?u"
    unfolding data_url_literal_def
    by (rule exI[of _ "js ''png''"], rule exI[of _ "js ''AAAA''"])
       (simp add: split js_def not_semicolon_def base64_char_def)
  have con: "contains_data_url (?pre @ ?u @ ?post)"
    unfolding contains_data_url_def using lit by blast
  have idx: "stringIndexOf (?pre @ ?u @ ?post) (js ''data:image/'') = Some (length ?pre)"
    by (simp add: js_def)
  have post: "?post = [] \<or> \<not> base64_char (hd ?post)"
    by (simp add: js_def base64_char_def)
  have "renderImage_result (?pre @ ?u @ ?post)
        = \<lparr>response_imageUrl = Some ?u, response_text = None\<rparr>"
    using renderImage_first_data_url[of "?pre @ ?u @ ?post" ?u ?pre ?post] lit idx post by blast
  then show ?thesis using lit con unfolding cat by simp
qed

theorem renderImage_first_data_url_counterexample:
  "js ''I will output data:image/png as '' @ js ''data:image/png;base64,AAAA'' @ js '' now''
     = js ''I will output data:image/png as data:image/png;base64,AAAA now''
   \<and> data_url_literal (js ''data:image/png;base64,AAAA'')
   \<and> renderImage_result (js ''I will output data:image/png as data:image/png;base64,AAAA now'')
       = \<lparr>response_imageUrl = Some (js ''data:image/png as data:image/png;base64,AAAA''),
          response_text = None\<rparr>
   \<and> renderImage_result (js ''I will output data:image/png as data:image/png;base64,AAAA now'')
       \<noteq> \<lparr>response_imageUrl = Some (js ''data:image/png;base64,AAAA''), response_text = None\<rparr>"
proof -
  let ?pre = "js ''I will output ''"
  let ?u = "js ''data:image/png as data:image/png;base64,AAAA''"
  let ?post = "js '' now''"
  have cat: "?pre @ ?u @ ?post = js ''I will output data:image/png as data:image/png;base64,AAAA now''"
    by (simp add: js_def)
  have cat': "js ''I will output data:image/png as '' @ js ''data:image/png;base64,AAAA'' @ js '' now''
     = js ''I will output data:image/png as data:image/png;base64,AAAA now''"
    by (simp add: js_def)
  have split: "?u = js ''data:image/'' @ js ''png as data:image/png'' @ js '';base64,'' @ js ''AAAA''"
    by (simp add: js_def)
  have long: "data_url_literal ?u"
    unfolding data_url_literal_def
    by (rule exI[of _ "js ''png as data:image/png''"], rule exI[of _ "js ''AAAA''"])
       (simp add: split js_def not_semicolon_def base64_char_def)
  have split': "js ''data:image/png;base64,AAAA''
                = js ''data:image/'' @ js ''png'' @ js '';base64,'' @ js ''AAAA''"
    by (simp add: js_def)
  have short: "data_url_literal (js ''data:image/png;base64,AAAA'')"
    unfolding data_url_literal_def
    by (rule exI[of _ "js ''png''"], rule exI[of _ "js ''AAAA''"])
       (simp add: split' js_def not_semicolon_def base64_char_def)
  have idx: "stringIndexOf (?pre @ ?u @ ?post) (js ''data:image/'') = Some (length ?pre)"
    by (simp add: js_def)
  have stop: "?post = [] \<or> \<not> base64_char (hd ?post)"
    by (simp add: js_def base64_char_def)
  have res: "renderImage_result (js ''I will output data:image/png as data:image/png;base64,AAAA now'')
        = \<lparr>response_imageUrl = Some ?u, response_text = None\<rparr>"
    using literal_at_first_scheme[OF long idx stop] unfolding cat .
  have ne: "?u \<noteq> js ''data:image/png;base64,AAAA''" by (simp add: js_def)
  show ?thesis using cat' short res ne by simp
qed

subsection \<open>The history keeps the five newest items\<close>

text \<open>
  Claim C4. For every initial store and every sequence of more than 5 \<open>addToHistory\<close>
  calls, the history afterwards has length 5 and holds the items of the 5 most recent
  calls, newest first. Every item stored has no image (\<open>imageUrl\<close> is \<open>null\<close>) whatever
  image was passed in, in the history in memory and in the subset handed to the
  storage; what the storage holds under the store's key is what it held before or a
  value without images.
\<close>

theorem history_five_newest_first:
  assumes "5 < length calls"
  shows "history (state (addToHistory_calls calls st)) = map stored (take 5 (rev calls))
       \<and> length (history (state (addToHistory_calls calls st))) = 5
       \<and> (\<forall>h \<in> set (history (state (addToHistory_calls calls st))). imageUrl h = None)
       \<and> imageUrl (newItem item uuid now) = None
       \<and> (\<forall>h \<in> set (saved_history (partialize s)). imageUrl h = None)
       \<and> (items (storage (addToHistory_calls calls st)) storage_name = items (storage st) storage_name
          \<or> written_clean (storage (addToHistory_calls calls st)))"
proof -
  have ne: "calls \<noteq> []" using assms by auto
  have h: "history (state (addToHistory_calls calls st)) = map stored (take 5 (rev calls))"
    unfolding history_addToHistory_calls[OF ne] using assms by (simp add: take_map rev_map)
  have "length (map stored (take 5 (rev calls))) = 5" using assms by simp
  moreover have "\<forall>h \<in> set (map stored (take 5 (rev calls))). imageUrl h = None"
    by (auto simp: stored_imageUrl)
  ultimately show ?thesis
    unfolding h[symmetric] using h addToHistory_calls_storage[of calls st]
    by (auto dest: partialize_clean simp: newItem_def)
qed

theorem history_five_newest_first_witness:
  "5 < length example_calls
   \<and> map item_id (history (state (addToHistory_calls example_calls example_store)))
       = [js ''f'', js ''e'', js ''d'', js ''c'', js ''b'']
   \<and> map imageUrl (history (state (addToHistory_calls example_calls example_store)))
       = [None, None, None, None, None]"
  using history_five_newest_first[of example_calls example_store]
  by (simp add: example_calls_def stored_def newItem_def)

subsection \<open>A failed write in addToHistory\<close>

text \<open>
  Claim C5. When the write of \<open>addToHistory\<close> fails with the quota error, the call is
  to return without throwing, with the new history in memory and \<open>storageWarning\<close>
  set; on success \<open>storageWarning\<close> is cleared, and \<open>deleteFromHistory\<close> and
  \<open>clearHistory\<close> clear it.

  The state in memory is as the claim says, but the call throws: the handler of the
  failed write calls \<open>set\<close> again, which writes the same value (\<open>storageWarning\<close> is
  not persisted) to the same storage, outside any \<open>try\<close>. So \<open>addToHistory\<close> throws
  the quota error to its caller exactly when its write is refused with it, as on a
  full storage.
\<close>

theorem addToHistory_quota_failure_throws:
  "(fst (addToHistory item uuid now st) = Inl QuotaExceededError)
     = (refuses (storage st) (items (storage st)) storage_name
          (partialize ((state st)\<lparr>history := newItem item uuid now # take 4 (history (state st))\<rparr>))
        = Some QuotaExceededError)
   \<and> (fst (addToHistory item uuid now st) = Inr ())
     = (refuses (storage st) (items (storage st)) storage_name
          (partialize ((state st)\<lparr>history := newItem item uuid now # take 4 (history (state st))\<rparr>))
        \<noteq> Some QuotaExceededError)
   \<and> history (state (snd (addToHistory item uuid now st)))
       = newItem item uuid now # take 4 (history (state st))
   \<and> storageWarning (state (snd (addToHistory item uuid now st)))
       = (fst (addToHistory item uuid now st) = Inl QuotaExceededError)
   \<and> storageWarning (state (snd (deleteFromHistory ident st))) = False
   \<and> storageWarning (state (snd (clearHistory st))) = False
   \<and> fst (addToHistory \<lparr>entry_schema = js ''schema'', entry_imageUrl = None\<rparr> (js ''id-1'') 1
             \<lparr>state = initialState, storage = full_storage\<rparr>) = Inl QuotaExceededError
   \<and> state (snd (addToHistory \<lparr>entry_schema = js ''schema'', entry_imageUrl = None\<rparr> (js ''id-1'') 1
             \<lparr>state = initialState, storage = full_storage\<rparr>))
       = initialState\<lparr>history := [newItem \<lparr>entry_schema = js ''schema'', entry_imageUrl = None\<rparr> (js ''id-1'') 1],
                      storageWarning := True\<rparr>"
proof -
  have p: "partialize (s\<lparr>history := hs, storageWarning := w\<rparr>) = partialize (s\<lparr>history := hs\<rparr>)" for s hs w
    by (simp add: partialize_def)
  have general: "(fst (addToHistory item uuid now st) = Inl QuotaExceededError)
     = (refuses (storage st) (items (storage st)) storage_name
          (partialize ((state st)\<lparr>history := newItem item uuid now # take 4 (history (state st))\<rparr>))
        = Some QuotaExceededError)
   \<and> (fst (addToHistory item uuid now st) = Inr ())
     = (refuses (storage st) (items (storage st)) storage_name
          (partialize ((state st)\<lparr>history := newItem item uuid now # take 4 (history (state st))\<rparr>))
        \<noteq> Some QuotaExceededError)
   \<and> storageWarning (state (snd (addToHistory item uuid now st)))
       = (fst (addToHistory item uuid now st) = Inl QuotaExceededError)" for item uuid now st
    unfolding addToHistory_outcome
    by (auto simp: p MAX_HISTORY_ITEMS_def safeStorage_setItem_def localStorage_setItem_def
        split: sum.splits option.splits if_splits)
  have full: "refuses full_storage m n v = Some QuotaExceededError" for m n v
    by (simp add: full_storage_def)
  have at_full: "fst (addToHistory \<lparr>entry_schema = js ''schema'', entry_imageUrl = None\<rparr> (js ''id-1'') 1
             \<lparr>state = initialState, storage = full_storage\<rparr>) = Inl QuotaExceededError"
    using general[of "\<lparr>entry_schema = js ''schema'', entry_imageUrl = None\<rparr>" "js ''id-1''" 1
        "\<lparr>state = initialState, storage = full_storage\<rparr>"]
    by (simp add: full)
  have st_full: "state (snd (addToHistory \<lparr>entry_schema = js ''schema'', entry_imageUrl = None\<rparr> (js ''id-1'') 1
             \<lparr>state = initialState, storage = full_storage\<rparr>))
       = initialState\<lparr>history := [newItem \<lparr>entry_schema = js ''schema'', entry_imageUrl = None\<rparr> (js ''id-1'') 1],
                      storageWarning := True\<rparr>"
    unfolding addToHistory_outcome
    by (simp add: full safeStorage_setItem_def localStorage_setItem_def MAX_HISTORY_ITEMS_def
        initialState_def)
  show ?thesis
    using general[of item uuid now st] at_full st_full
    by (simp add: history_addToHistory deleteFromHistory_def clearHistory_def state_persist_set)
qed

subsection \<open>Substitution of the placeholder\<close>

text \<open>
  Claim C6. Substituting a value for the placeholder of a template is to give the
  template with the placeholder replaced by the value and every other character as it
  was. The first occurrence alone is replaced and the text around it is kept, but the
  value is not inserted as it is: \<open>replace\<close> reads \<open>$$\<close>, \<open>$&\<close>, \<open>$`\<close> and \<open>$'\<close> in it
  as replacement patterns. A paper content with display mathematics, \<open>$$E = mc2$$\<close>,
  arrives in the prompt as \<open>$E = mc2$\<close>, in each of the three templates.
\<close>

theorem placeholder_substitution_rewrites_dollar:
  "generateSchema_prompt (js ''$$E = mc2$$'')
     = js ARCHITECT_BEFORE @ js ''$E = mc2$'' @ js ARCHITECT_AFTER
   \<and> generateSchema_prompt (js ''$$E = mc2$$'')
     \<noteq> js ARCHITECT_BEFORE @ js ''$$E = mc2$$'' @ js ARCHITECT_AFTER
   \<and> renderImage_prompt (js ''$$E = mc2$$'') None
     = js RENDERER_BEFORE @ js ''$E = mc2$'' @ js RENDERER_AFTER
   \<and> renderImage_prompt (js ''$$E = mc2$$'') None
     \<noteq> js RENDERER_BEFORE @ js ''$$E = mc2$$'' @ js RENDERER_AFTER
   \<and> renderImage_prompt (js ''$$E = mc2$$'') (Some [js ''data:image/png;base64,AAAA''])
     = js RENDERER_WITH_REFERENCES_BEFORE @ js ''$E = mc2$'' @ js RENDERER_WITH_REFERENCES_AFTER
   \<and> renderImage_prompt (js ''$$E = mc2$$'') (Some [js ''data:image/png;base64,AAAA''])
     \<noteq> js RENDERER_WITH_REFERENCES_BEFORE @ js ''$$E = mc2$$'' @ js RENDERER_WITH_REFERENCES_AFTER"
proof -
  have ne: "js ''$E = mc2$'' \<noteq> js ''$$E = mc2$$''" by (simp add: js_def)
  have a: "\<not> images_present None" "images_present (Some [js ''data:image/png;base64,AAAA''])"
    by (simp_all add: images_present_def)
  show ?thesis
    unfolding generateSchema_prompt_split renderImage_prompt_plain_split[OF a(1)]
      renderImage_prompt_references_split[OF a(2)] dollar_pair
    using ne by simp
qed

text \<open>A value without a dollar sign is inserted as it is.\<close>

lemma generateSchema_prompt_without_dollar:
  "0x24 \<notin> set v \<Longrightarrow>
   generateSchema_prompt v = js ARCHITECT_BEFORE @ v @ js ARCHITECT_AFTER"
  by (simp add: generateSchema_prompt_split getSubstitution_without_dollar)

lemma renderImage_prompt_without_dollar:
  "0x24 \<notin> set v \<Longrightarrow>
   renderImage_prompt v refs =
     (if images_present refs
      then js RENDERER_WITH_REFERENCES_BEFORE @ v @ js RENDERER_WITH_REFERENCES_AFTER
      else js RENDERER_BEFORE @ v @ js RENDERER_AFTER)"
  by (simp add: renderImage_prompt_references_split renderImage_prompt_plain_split
      getSubstitution_without_dollar)

subsection \<open>Choice of the renderer template\<close>

text \<open>
  Claim C7. The template of \<open>renderImage\<close> depends on the presence of reference images
  alone. With one reference image or more the prompt is built from the template with
  references: it starts with that template's text before the placeholder, ends with
  its text after it, and so contains its sentence about the reference images; it
  does not start as the plain template does. With no reference image (the list absent
  or empty) the prompt is built from the plain template in the same way.
\<close>

theorem renderImage_template_by_references:
  "(images_present refs \<longrightarrow>
      renderImage_prompt vs refs
        = js_replace RENDERER_WITH_REFERENCES_TEMPLATE (js ''{visual_schema_content}'') vs
      \<and> prefix (js RENDERER_WITH_REFERENCES_BEFORE) (renderImage_prompt vs refs)
      \<and> suffix (js RENDERER_WITH_REFERENCES_AFTER) (renderImage_prompt vs refs)
      \<and> sublist (js ''The reference images show the desired aesthetic style.'')
           (renderImage_prompt vs refs)
      \<and> \<not> prefix (js RENDERER_BEFORE) (renderImage_prompt vs refs))
   \<and> (\<not> images_present refs \<longrightarrow>
      renderImage_prompt vs refs
        = js_replace RENDERER_PROMPT_TEMPLATE (js ''{visual_schema_content}'') vs
      \<and> prefix (js RENDERER_BEFORE) (renderImage_prompt vs refs)
      \<and> suffix (js RENDERER_AFTER) (renderImage_prompt vs refs)
      \<and> sublist (js ''Create a clean, professional academic diagram with:'')
           (renderImage_prompt vs refs)
      \<and> \<not> prefix (js RENDERER_WITH_REFERENCES_BEFORE) (renderImage_prompt vs refs))
   \<and> (1 \<le> length images \<longrightarrow> images_present (Some images))
   \<and> \<not> images_present None \<and> \<not> images_present (Some [])"
proof -
  have ph1: "js RENDERER_WITH_REFERENCES_AFTER
     = js ''\<newline>\<newline>'' @ js ''The reference images show the desired aesthetic style.''
       @ js '' Generate a diagram that:\<newline>- Follows the layout and structure from the Visual Schema\<newline>- Matches the visual style of the reference images\<newline>- Has publication-quality aesthetics suitable for CVPR/NeurIPS''"
    unfolding RENDERER_WITH_REFERENCES_AFTER_def by (simp add: js_def)
  have ph2: "js RENDERER_AFTER
     = js ''\<newline>\<newline>'' @ js ''Create a clean, professional academic diagram with:''
       @ js ''\<newline>- Clear visual hierarchy\<newline>- Professional color scheme\<newline>- Crisp lines and shapes\<newline>- Readable text labels\<newline>- Publication-quality aesthetics''"
    unfolding RENDERER_AFTER_def by (simp add: js_def)
  have d1: "\<not> prefix (js RENDERER_BEFORE) (js RENDERER_WITH_REFERENCES_BEFORE @ x)" for x
    unfolding RENDERER_BEFORE_def RENDERER_WITH_REFERENCES_BEFORE_def by (simp add: js_def)
  have d2: "\<not> prefix (js RENDERER_WITH_REFERENCES_BEFORE) (js RENDERER_BEFORE @ x)" for x
    unfolding RENDERER_BEFORE_def RENDERER_WITH_REFERENCES_BEFORE_def by (simp add: js_def)
  have s1: "sublist (js ''The reference images show the desired aesthetic style.'')
              (a @ b @ js RENDERER_WITH_REFERENCES_AFTER)" for a b
    unfolding ph1 sublist_def
    by (rule exI[of _ "a @ b @ js ''\<newline>\<newline>''"]) auto
  have s2: "sublist (js ''Create a clean, professional academic diagram with:'')
              (a @ b @ js RENDERER_AFTER)" for a b
    unfolding ph2 sublist_def
    by (rule exI[of _ "a @ b @ js ''\<newline>\<newline>''"]) auto
  have A: "images_present refs \<Longrightarrow>
      prefix (js RENDERER_WITH_REFERENCES_BEFORE) (renderImage_prompt vs refs)
      \<and> suffix (js RENDERER_WITH_REFERENCES_AFTER) (renderImage_prompt vs refs)
      \<and> sublist (js ''The reference images show the desired aesthetic style.'')
           (renderImage_prompt vs refs)
      \<and> \<not> prefix (js RENDERER_BEFORE) (renderImage_prompt vs refs)"
    unfolding renderImage_prompt_references_split using d1 s1
    by (simp add: suffix_def) 
  have B: "\<not> images_present refs \<Longrightarrow>
      prefix (js RENDERER_BEFORE) (renderImage_prompt vs refs)
      \<and> suffix (js RENDERER_AFTER) (renderImage_prompt vs refs)
      \<and> sublist (js ''Create a clean, professional academic diagram with:'')
           (renderImage_prompt vs refs)
      \<and> \<not> prefix (js RENDERER_WITH_REFERENCES_BEFORE) (renderImage_prompt vs refs)"
    unfolding renderImage_prompt_plain_split using d2 s2
    by (simp add: suffix_def)
  show ?thesis
    using A B by (auto simp: renderImage_prompt_def images_present_def)
qed

theorem renderImage_template_by_references_witness:
  "images_present (Some [js ''style.png''])
   \<and> renderImage_prompt (js ''schema'') (Some [js ''style.png''])
       = js_replace RENDERER_WITH_REFERENCES_TEMPLATE (js ''{visual_schema_content}'') (js ''schema'')
   \<and> sublist (js ''The reference images show the desired aesthetic style.'')
         (renderImage_prompt (js ''schema'') (Some [js ''style.png'']))
   \<and> \<not> images_present None
   \<and> renderImage_prompt (js ''schema'') None
       = js_replace RENDERER_PROMPT_TEMPLATE (js ''{visual_schema_content}'') (js ''schema'')
   \<and> prefix (js RENDERER_BEFORE) (renderImage_prompt (js ''schema'') None)"
proof -
  have a: "images_present (Some [js ''style.png''])" "\<not> images_present None"
    by (simp_all add: images_present_def)
  show ?thesis
    using a renderImage_template_by_references[of "Some [js ''style.png'']" "js ''schema''"]
      renderImage_template_by_references[of None "js ''schema''"]
    by blast
qed

subsection \<open>Loading from the history\<close>

text \<open>
  Claim C8. For every store whose history has an item with the given id,
  \<open>loadFromHistory\<close> sets \<open>generatedSchema\<close> to the schema of that item (the first one
  with the id; the only one when the ids of the history are distinct) and
  \<open>generatedImage\<close> to \<open>null\<close>, whatever it was before.
\<close>

theorem loadFromHistory_restores_schema:
  assumes "h \<in> set (history (state st))" and "item_id h = ident"
  shows "generatedImage (state (snd (loadFromHistory ident st))) = None
    \<and> (\<exists>pre item post. history (state st) = pre @ item # post \<and> item_id item = ident
          \<and> (\<forall>x\<in>set pre. item_id x \<noteq> ident)
          \<and> generatedSchema (state (snd (loadFromHistory ident st))) = schema item)
    \<and> (distinct (map item_id (history (state st)))
          \<longrightarrow> generatedSchema (state (snd (loadFromHistory ident st))) = schema h)"
proof -
  from find_first[of h "history (state st)" "\<lambda>x. item_id x = ident", OF assms]
  obtain pre item post where d: "history (state st) = pre @ item # post" "item_id item = ident"
    "\<forall>x\<in>set pre. item_id x \<noteq> ident" and f: "find (\<lambda>x. item_id x = ident) (history (state st)) = Some item"
    by blast
  have st: "state (snd (loadFromHistory ident st))
            = (state st)\<lparr>generatedSchema := schema item, generatedImage := None\<rparr>"
    unfolding loadFromHistory_def f by (simp add: state_persist_set)
  have "item = h" if "distinct (map item_id (history (state st)))"
  proof -
    have "inj_on item_id (set (history (state st)))" using that by (simp add: distinct_map)
    moreover have "item \<in> set (history (state st))" using d(1) by simp
    ultimately show ?thesis using assms d(2) by (auto dest: inj_onD)
  qed
  then show ?thesis using d st by auto
qed

theorem loadFromHistory_restores_schema_witness:
  "generatedImage (state example_store) = Some (js ''data:image/png;base64,AAAA'')
   \<and> generatedImage (state (snd (loadFromHistory (js ''id-a'') example_store))) = None
   \<and> generatedSchema (state (snd (loadFromHistory (js ''id-a'') example_store))) = js ''schema A''"
proof -
  let ?h = "newItem \<lparr>entry_schema = js ''schema A'', entry_imageUrl = None\<rparr> (js ''id-a'') 1"
  have 1: "?h \<in> set (history (state example_store))"
    by (simp add: example_store_def example_history_def)
  have 2: "item_id ?h = js ''id-a''" by (simp add: newItem_def)
  have 3: "distinct (map item_id (history (state example_store)))"
    by (simp add: example_store_def example_history_def newItem_def js_def)
  show ?thesis
    using loadFromHistory_restores_schema[OF 1 2] 3 by (simp add: example_store_def newItem_def)
qed

subsection \<open>Resetting the project\<close>

text \<open>
  Claim C9. For every store, \<open>resetProject\<close> sets \<open>paperContent\<close> and \<open>generatedSchema\<close>
  to the empty string, \<open>generatedImage\<close> to \<open>null\<close>, \<open>referenceImages\<close> to the empty
  list and \<open>currentStep\<close> to 1, and leaves both model configurations and the history
  (and every other field) as they were.
\<close>

theorem resetProject_clears_working_fields:
  "paperContent (state (snd (resetProject st))) = []
   \<and> generatedSchema (state (snd (resetProject st))) = []
   \<and> generatedImage (state (snd (resetProject st))) = None
   \<and> referenceImages (state (snd (resetProject st))) = []
   \<and> currentStep (state (snd (resetProject st))) = 1
   \<and> logicConfig (state (snd (resetProject st))) = logicConfig (state st)
   \<and> visionConfig (state (snd (resetProject st))) = visionConfig (state st)
   \<and> history (state (snd (resetProject st))) = history (state st)
   \<and> state (snd (resetProject st))
       = (state st)\<lparr>paperContent := [], generatedSchema := [], generatedImage := None,
                      referenceImages := [], currentStep := 1\<rparr>"
  by (simp add: resetProject_def state_persist_set)

subsection \<open>What loading from the history leaves alone\<close>

text \<open>
  Claim C10. For every store and every id, \<open>loadFromHistory\<close> changes at most the
  fields \<open>generatedSchema\<close> and \<open>generatedImage\<close>: when no history item has the id the
  store is left as it was, and in every case the history, \<open>currentStep\<close>,
  \<open>paperContent\<close>, \<open>referenceImages\<close>, both model configurations, the language and
  \<open>storageWarning\<close> are unchanged.
\<close>

theorem loadFromHistory_frame:
  "(find (\<lambda>h. item_id h = ident) (history (state st)) = None
      \<longrightarrow> loadFromHistory ident st = (Inr (), st))
   \<and> (\<exists>gs gi. state (snd (loadFromHistory ident st))
                = (state st)\<lparr>generatedSchema := gs, generatedImage := gi\<rparr>)
   \<and> history (state (snd (loadFromHistory ident st))) = history (state st)
   \<and> currentStep (state (snd (loadFromHistory ident st))) = currentStep (state st)
   \<and> paperContent (state (snd (loadFromHistory ident st))) = paperContent (state st)
   \<and> referenceImages (state (snd (loadFromHistory ident st))) = referenceImages (state st)
   \<and> logicConfig (state (snd (loadFromHistory ident st))) = logicConfig (state st)
   \<and> visionConfig (state (snd (loadFromHistory ident st))) = visionConfig (state st)
   \<and> language (state (snd (loadFromHistory ident st))) = language (state st)
   \<and> storageWarning (state (snd (loadFromHistory ident st))) = storageWarning (state st)"
proof (cases "find (\<lambda>h. item_id h = ident) (history (state st))")
  case None
  have "state st = (state st)\<lparr>generatedSchema := generatedSchema (state st),
                               generatedImage := generatedImage (state st)\<rparr>"
    by simp
  then have "\<exists>gs gi. state st = (state st)\<lparr>generatedSchema := gs, generatedImage := gi\<rparr>"
    by blast
  then show ?thesis using None by (simp add: loadFromHistory_def)
next
  case (Some item)
  have "state (snd (loadFromHistory ident st))
        = (state st)\<lparr>generatedSchema := schema item, generatedImage := None\<rparr>"
    using Some by (simp add: loadFromHistory_def state_persist_set)
  then show ?thesis using Some by auto
qed

theorem loadFromHistory_frame_witness:
  "find (\<lambda>h. item_id h = js ''id-z'') (history (state example_store)) = None
   \<and> loadFromHistory (js ''id-z'') example_store = (Inr (), example_store)
   \<and> history (state (snd (loadFromHistory (js ''id-a'') example_store))) = example_history
   \<and> storageWarning (state (snd (loadFromHistory (js ''id-a'') example_store))) = False"
proof -
  have "find (\<lambda>h. item_id h = js ''id-z'') (history (state example_store)) = None"
    by (simp add: example_store_def example_history_def newItem_def js_def)
  then show ?thesis
    using loadFromHistory_frame[of "js ''id-z''" example_store]
      loadFromHistory_frame[of "js ''id-a''" example_store]
    by (simp add: example_store_def initialState_def)
qed

end
